theory Spec2Isabelle
  imports Main "HOL-Library.Multiset"
begin

section \<open>Atoms, handles and the services of the atom store\<close>

text \<open>
  An atom is a node (a type and a name) or a link (a type and an outgoing set).
  The atom types are the ones the two source files name, a few ordinary ones,
  and \<open>OTHER_TYPE n\<close> for every remaining type of the type registry.
\<close>

type_synonym UUID = nat

datatype Type =
    CONCEPT_NODE | PREDICATE_NODE | VARIABLE_NODE | GLOB_NODE
  | LIST_LINK | EVALUATION_LINK | QUOTE_LINK
  | VARIABLE_LIST | TYPED_VARIABLE_LINK | SCOPE_LINK | LAMBDA_LINK
  | OTHER_TYPE nat

datatype atom = Node Type string | Link Type "atom list"

text \<open>
  A Handle that may be \<open>Handle::UNDEFINED\<close> is an \<open>atom option\<close>; the members of
  an outgoing set and the arguments of the callbacks are atoms.
\<close>

type_synonym Handle = "atom option"
type_synonym HandleSeq = "atom list"

fun getType :: "atom \<Rightarrow> Type" where
  "getType (Node t n) = t"
| "getType (Link t out) = t"

text \<open>
  What the fuzzy matcher takes from code that is not in the two files:
  \<open>value_of\<close> is \<open>Handle::value()\<close>, the identifier of an atom, by which handles are
  compared (\<open>==\<close>, \<open><\<close>); \<open>getIncomingSetSize\<close> and \<open>getIncomingSet\<close> are the
  incoming-set queries of an atom; \<open>get_all_nodes\<close> is the helper of
  \<open>opencog/atomutils/AtomUtils.h\<close>, which returns a \<open>HandleSeq\<close>;
  \<open>MAX_SEARCHES\<close> is the macro of \<open>FuzzyPatternMatchCB.h\<close>.
\<close>

record Env =
  value_of :: "atom \<Rightarrow> UUID"
  getIncomingSetSize :: "atom \<Rightarrow> nat"
  getIncomingSet :: "atom \<Rightarrow> HandleSeq"
  get_all_nodes :: "atom \<Rightarrow> HandleSeq"
  MAX_SEARCHES :: nat

definition handle_less :: "Env \<Rightarrow> atom \<Rightarrow> atom \<Rightarrow> bool" where
  "handle_less env a b = (value_of env a < value_of env b)"

definition handle_eq :: "Env \<Rightarrow> atom \<Rightarrow> atom \<Rightarrow> bool" where
  "handle_eq env a b = (value_of env a = value_of env b)"

text \<open>
  What can go wrong: the two exceptions \<open>ScopeLink.cc\<close> throws, the exception of
  \<open>getOutgoingAtom\<close> for a position past the outgoing set, and two failures C++
  leaves undefined: \<open>OutOfRange\<close> for an index past the end of a vector
  (\<open>operator[]\<close>) and \<open>NullPointer\<close> for a member call through an undefined handle.
\<close>

datatype error =
  SyntaxException | InvalidParamException | RuntimeException | OutOfRange | NullPointer

fun getOutgoingSet :: "atom \<Rightarrow> HandleSeq" where
  "getOutgoingSet (Node t n) = []"
| "getOutgoingSet (Link t out) = out"

definition outgoing_at :: "HandleSeq \<Rightarrow> nat \<Rightarrow> error + atom" where
  "outgoing_at out pos = (if pos < length out then Inr (out ! pos) else Inl RuntimeException)"

definition getOutgoingAtom :: "atom \<Rightarrow> nat \<Rightarrow> error + atom" where
  "getOutgoingAtom a pos = outgoing_at (getOutgoingSet a) pos"

definition at_index :: "'a list \<Rightarrow> nat \<Rightarrow> error + 'a" where
  "at_index xs i = (if i < length xs then Inr (xs ! i) else Inl OutOfRange)"

section \<open>The standard algorithms the code calls\<close>

text \<open>
  \<open>std::sort\<close> with a comparator. The C++ algorithm leaves the order of equivalent
  elements open. The model keeps them in the order of the input: each element is
  put before the first element of the sorted rest that is not less than it, which
  is the result of the insertion sort that the usual implementations run on a short
  range. The theorems about sorted lists are stated for every permutation of the
  input in which no later element is less than an earlier one (\<open>is_sort_of\<close> below).
\<close>

fun sort_insert :: "('a \<Rightarrow> 'a \<Rightarrow> bool) \<Rightarrow> 'a \<Rightarrow> 'a list \<Rightarrow> 'a list" where
  "sort_insert lt x [] = [x]"
| "sort_insert lt x (y # ys) =
     (if lt y x then y # sort_insert lt x ys else x # y # ys)"

fun std_sort :: "('a \<Rightarrow> 'a \<Rightarrow> bool) \<Rightarrow> 'a list \<Rightarrow> 'a list" where
  "std_sort lt [] = []"
| "std_sort lt (x # xs) = sort_insert lt x (std_sort lt xs)"

text \<open>\<open>std::unique\<close> followed by \<open>erase\<close>: of every run of equal neighbours the first stays.\<close>

fun std_unique :: "('a \<Rightarrow> 'a \<Rightarrow> bool) \<Rightarrow> 'a list \<Rightarrow> 'a list" where
  "std_unique eq [] = []"
| "std_unique eq [x] = [x]"
| "std_unique eq (x # y # ys) =
     (if eq x y then std_unique eq (x # ys) else x # std_unique eq (y # ys))"

text \<open>\<open>std::set_intersection\<close> of two sorted ranges, copying from the first.\<close>

fun set_intersection :: "('a \<Rightarrow> 'a \<Rightarrow> bool) \<Rightarrow> 'a list \<Rightarrow> 'a list \<Rightarrow> 'a list" where
  "set_intersection lt [] ys = []"
| "set_intersection lt (x # xs) [] = []"
| "set_intersection lt (x # xs) (y # ys) =
     (if lt x y then set_intersection lt xs (y # ys)
      else if lt y x then set_intersection lt (x # xs) ys
      else x # set_intersection lt xs ys)"

text \<open>\<open>std::find(first, last, rh) != last\<close> on handles.\<close>

definition std_find :: "Env \<Rightarrow> HandleSeq \<Rightarrow> atom \<Rightarrow> bool" where
  "std_find env gn rh = list_ex (\<lambda>g. handle_eq env g rh) gn"

section \<open>FuzzyPatternMatchCB: scoring and the comparison callback\<close>

record Starter =
  uuid :: UUID
  handle :: atom
  term_h :: Handle
  clause_idx :: nat
  width :: nat
  depth :: nat

record FuzzyPatternMatchCB =
  reject_list :: HandleSeq
  potential_starters :: "Starter list"
  pat_size :: nat
  var_size :: nat
  prev_compared :: "(UUID \<times> UUID) list"
  similarity :: int
  max_similarity :: int
  solns :: HandleSeq

text \<open>
  \<open>pat_size - gn.size()\<close> is computed in \<open>size_t\<close> (64 bits, wrapping), the cast
  \<open>(int)\<close> keeps the low 32 bits as a signed value, and \<open>std::abs\<close> is taken of that.
\<close>

definition size_t_sub :: "nat \<Rightarrow> nat \<Rightarrow> int" where
  "size_t_sub a b = (int a - int b) mod 2 ^ 64"

definition int_cast :: "int \<Rightarrow> int" where
  "int_cast v = (let r = v mod 2 ^ 32 in if r < 2 ^ 31 then r else r - 2 ^ 32)"

text \<open>
  Lines 243-253 of \<open>check_if_accept\<close>: the similarity of a candidate whose nodes are
  \<open>gn\<close> to a pattern atom whose nodes are \<open>pn\<close>. \<open>common\<close> and \<open>diff\<close> are integers far
  below \<open>2^53\<close>, so the \<open>double\<close> the code computes is their exact difference.
  Where the cast gives \<open>- 2^31\<close>, \<open>std::abs\<close> has no defined result in C++; the
  definition takes \<open>2^31\<close> there, and the theorem on the similarity leaves that
  point out: it is stated for sizes less than \<open>2^31\<close> apart.
\<close>

definition estimate_similarity :: "Env \<Rightarrow> nat \<Rightarrow> HandleSeq \<Rightarrow> HandleSeq \<Rightarrow> int" where
  "estimate_similarity env psize pn gn =
     (let pn' = std_sort (handle_less env) pn;
          gn' = std_sort (handle_less env) gn;
          common_nodes = set_intersection (handle_less env) pn' gn';
          common = length common_nodes;
          diff = nat \<bar>int_cast (size_t_sub psize (length gn'))\<bar>
      in int common - int diff)"

definition check_if_accept ::
  "Env \<Rightarrow> FuzzyPatternMatchCB \<Rightarrow> atom \<Rightarrow> atom \<Rightarrow> FuzzyPatternMatchCB" where
  "check_if_accept env st ph gh =
     (let pn = get_all_nodes env ph;
          gn = get_all_nodes env gh
      in if list_ex (std_find env gn) (reject_list st) then st
         else
           let st1 = st\<lparr>similarity := estimate_similarity env (pat_size st) pn gn\<rparr>
           in if similarity st1 > max_similarity st1
              then st1\<lparr>max_similarity := similarity st1, solns := [gh]\<rparr>
              else if similarity st1 = max_similarity st1
              then st1\<lparr>solns := solns st1 @ [gh]\<rparr>
              else st1)"

definition clause_match ::
  "Env \<Rightarrow> FuzzyPatternMatchCB \<Rightarrow> atom \<Rightarrow> atom \<Rightarrow> bool \<times> FuzzyPatternMatchCB" where
  "clause_match env st ph gh =
     (let p = (value_of env ph, value_of env gh)
      in if p \<notin> set (prev_compared st)
         then (let st1 = check_if_accept env st ph gh
               in (True, st1\<lparr>prev_compared := prev_compared st1 @ [p]\<rparr>))
         else (True, st))"

section \<open>FuzzyPatternMatchCB: starter discovery\<close>

text \<open>
  \<open>find_starters\<close> with its \<open>for\<close> loop over the outgoing set
  (\<open>find_starters_loop\<close>; \<open>hp\<close> is the link whose outgoing set is walked). The
  object's members \<open>pat_size\<close>, \<open>var_size\<close> and the list \<open>rtn\<close>, for which
  \<open>initiate_search\<close> passes \<open>potential_starters\<close>, are threaded through the state.
  A handle in an outgoing set is a node or a link, so the test
  \<open>hp != Handle::UNDEFINED and np\<close> of the leaf branch holds for every \<open>Node\<close>.
  The name test is \<open>find("@") == npos\<close>.
\<close>

function find_starters ::
    "Env \<Rightarrow> atom \<Rightarrow> nat \<Rightarrow> nat \<Rightarrow> Handle \<Rightarrow> FuzzyPatternMatchCB \<Rightarrow> error + FuzzyPatternMatchCB"
  and find_starters_loop ::
    "Env \<Rightarrow> atom list \<Rightarrow> atom \<Rightarrow> nat \<Rightarrow> nat \<Rightarrow> FuzzyPatternMatchCB \<Rightarrow> error + FuzzyPatternMatchCB"
where
  "find_starters env (Link t out) dp ci tm st = find_starters_loop env out (Link t out) dp ci st"
| "find_starters env (Node t n) dp ci tm st =
     Inr (let st1 = st\<lparr>pat_size := pat_size st + 1\<rparr>
          in if t \<noteq> VARIABLE_NODE \<and> CHR ''@'' \<notin> set n
             then st1\<lparr>potential_starters := potential_starters st1 @
                    [\<lparr>uuid = value_of env (Node t n), handle = Node t n, term_h = tm,
                      clause_idx = ci, width = getIncomingSetSize env (Node t n), depth = dp\<rparr>]\<rparr>
             else if t = VARIABLE_NODE then st1\<lparr>var_size := var_size st1 + 1\<rparr>
             else st1)"
| "find_starters_loop env [] hp dp ci st = Inr st"
| "find_starters_loop env (h # hs) hp dp ci st =
     (case (if getType h = QUOTE_LINK then getOutgoingAtom h 0 else Inr h) of
        Inl e \<Rightarrow> Inl e
      | Inr h' \<Rightarrow>
          (case find_starters env h' (dp + 1) ci (Some hp) st of
             Inl e \<Rightarrow> Inl e
           | Inr st' \<Rightarrow> find_starters_loop env hs hp dp ci st'))"
  by pat_completeness auto
termination
proof -
  have first_smaller: "size (getOutgoingSet h ! 0) < size h" if "getOutgoingSet h \<noteq> []" for h
    using that by (cases h; cases "getOutgoingSet h") auto
  show ?thesis
    apply (relation "measure (\<lambda>x. case x of
          Inl (env, a, dp, ci, tm, st) \<Rightarrow> 2 * size a
        | Inr (env, hs, hp, dp, ci, st) \<Rightarrow> 2 * size_list size hs + 1)")
    apply (auto simp: getOutgoingAtom_def outgoing_at_def split: if_splits)
    subgoal for h hs using first_smaller [of h] by simp
    done
qed

section \<open>FuzzyPatternMatchCB: ranking the starters and the searches\<close>

record Pattern =
  mandatory :: HandleSeq
  evaluatable_holders :: HandleSeq

text \<open>
  The loop of \<open>initiate_search\<close> over the clauses (lines 110-117); \<open>i\<close> is the index
  of the first clause of \<open>cs\<close>, and \<open>evaluatable_holders.count\<close> compares handles.
\<close>

fun clause_loop ::
  "Env \<Rightarrow> Pattern \<Rightarrow> atom list \<Rightarrow> nat \<Rightarrow> FuzzyPatternMatchCB \<Rightarrow> error + FuzzyPatternMatchCB" where
  "clause_loop env pat [] i st = Inr st"
| "clause_loop env pat (c # cs) i st =
     (if list_ex (handle_eq env c) (evaluatable_holders pat) then clause_loop env pat cs (i + 1) st
      else (case find_starters env c 0 i None st of
              Inl e \<Rightarrow> Inl e
            | Inr st' \<Rightarrow> clause_loop env pat cs (i + 1) st'))"

definition check_uniqueness :: "Starter \<Rightarrow> Starter \<Rightarrow> bool" where
  "check_uniqueness s1 s2 = (uuid s1 = uuid s2)"

definition sort_by_uuid :: "Starter \<Rightarrow> Starter \<Rightarrow> bool" where
  "sort_by_uuid s1 s2 = (uuid s1 < uuid s2)"

definition sort_by_wd :: "Starter \<Rightarrow> Starter \<Rightarrow> bool" where
  "sort_by_wd s1 s2 = (if width s1 = width s2 then depth s1 > depth s2 else width s1 < width s2)"

text \<open>Lines 119-144: sort by identifier, drop equal neighbours, sort by width and depth.\<close>

definition rank_starters :: "Starter list \<Rightarrow> Starter list" where
  "rank_starters ps = std_sort sort_by_wd (std_unique check_uniqueness (std_sort sort_by_uuid ps))"

text \<open>
  \<open>PatternMatchEngine::explore_neighborhood(root, starter_term, h)\<close> belongs to the
  search engine, which is not in the two files; it acts on the matcher through the
  callbacks, so it is a function on the matcher's state.
\<close>

type_synonym PatternMatchEngine =
  "atom \<Rightarrow> Handle \<Rightarrow> atom \<Rightarrow> FuzzyPatternMatchCB \<Rightarrow> FuzzyPatternMatchCB"

text \<open>Lines 172-184: one search, from the starter \<open>s\<close> of the clause \<open>root\<close>.\<close>

definition explore_starter ::
  "Env \<Rightarrow> PatternMatchEngine \<Rightarrow> atom \<Rightarrow> Starter \<Rightarrow> FuzzyPatternMatchCB \<Rightarrow> FuzzyPatternMatchCB" where
  "explore_starter env pme root s st =
     foldl (\<lambda>st' h. pme root (term_h s) h st') st (getIncomingSet env (handle s))"

text \<open>
  Lines 147-185: the \<open>while\<close> loop, from the value \<open>search_cnt\<close>; it returns the final
  \<open>search_cnt\<close> with the state. \<open>DEBUG\<close> is defined (line 29), so every iteration
  prints \<open>starter_term->toShortString()\<close> (line 168), a member call through the
  starter's term; what is printed is not modelled.
\<close>

function search_loop ::
  "Env \<Rightarrow> PatternMatchEngine \<Rightarrow> HandleSeq \<Rightarrow> nat \<Rightarrow> FuzzyPatternMatchCB
     \<Rightarrow> error + (nat \<times> FuzzyPatternMatchCB)" where
  "search_loop env pme clauses search_cnt st =
     (if MAX_SEARCHES env > search_cnt then
        (if length (potential_starters st) = search_cnt then Inr (search_cnt, st)
         else
           (case at_index (potential_starters st) search_cnt of
              Inl e \<Rightarrow> Inl e
            | Inr s \<Rightarrow>
                (case at_index clauses (clause_idx s) of
                   Inl e \<Rightarrow> Inl e
                 | Inr root \<Rightarrow>
                     (case term_h s of
                        None \<Rightarrow> Inl NullPointer
                      | Some starter_term \<Rightarrow>
                          search_loop env pme clauses (search_cnt + 1)
                            (explore_starter env pme root s st)))))
      else Inr (search_cnt, st))"
  by pat_completeness auto
termination
  by (relation "measure (\<lambda>(env, pme, clauses, search_cnt, st). MAX_SEARCHES env - search_cnt)") auto

definition initiate_search ::
  "Env \<Rightarrow> PatternMatchEngine \<Rightarrow> Pattern \<Rightarrow> FuzzyPatternMatchCB \<Rightarrow> error + (bool \<times> FuzzyPatternMatchCB)" where
  "initiate_search env pme pat st =
     (case clause_loop env pat (mandatory pat) 0 st of
        Inl e \<Rightarrow> Inl e
      | Inr st1 \<Rightarrow>
          (case search_loop env pme (mandatory pat) 0
                  (st1\<lparr>potential_starters := rank_starters (potential_starters st1)\<rparr>) of
             Inl e \<Rightarrow> Inl e
           | Inr (n, st2) \<Rightarrow> Inr (length (solns st2) > 0, st2)))"

section \<open>ScopeLink\<close>

text \<open>
  \<open>Variables\<close>: the variables in order, and the type restrictions of those that have
  one (a list of pairs, looked up with \<open>map_of\<close>).
\<close>

record Variables =
  varseq :: HandleSeq
  typemap :: "(atom \<times> Type set) list"

record ScopeLink =
  scope_type :: Type
  outgoing :: HandleSeq
  vardecl :: Handle
  body :: Handle
  varlist :: Variables

text \<open>
  What \<open>extract_variables\<close> takes from classes that are not in the two files:
  \<open>isA\<close> of the class server; for a body of a lambda type, the variables and the body
  of the \<open>LambdaLink\<close> (found by the cast or built by \<open>createLambdaLink\<close>, which may
  throw); \<open>Variables::find_variables\<close>; and the variables of \<open>VariableList vl(hvar)\<close>,
  whose constructor may throw.
\<close>

record ScopeEnv =
  isA :: "Type \<Rightarrow> Type \<Rightarrow> bool"
  lambda_parts :: "atom \<Rightarrow> error + (Variables \<times> atom)"
  find_variables :: "atom \<Rightarrow> Variables"
  VariableList_get_variables :: "atom \<Rightarrow> error + Variables"

definition init_scoped_variables :: "ScopeEnv \<Rightarrow> ScopeLink \<Rightarrow> atom \<Rightarrow> error + ScopeLink" where
  "init_scoped_variables senv sc hvar =
     (case VariableList_get_variables senv hvar of
        Inl e \<Rightarrow> Inl e
      | Inr vl \<Rightarrow> Inr (sc\<lparr>varlist := vl\<rparr>))"

definition extract_variables :: "ScopeEnv \<Rightarrow> ScopeLink \<Rightarrow> HandleSeq \<Rightarrow> error + ScopeLink" where
  "extract_variables senv sc oset =
     (if length oset = 0 then Inl SyntaxException
      else
        let decls = getType (oset ! 0) in
        if VARIABLE_LIST \<noteq> decls \<and> VARIABLE_NODE \<noteq> decls \<and>
           TYPED_VARIABLE_LINK \<noteq> decls \<and> GLOB_NODE \<noteq> decls
        then
          (if isA senv (getType (oset ! 0)) LAMBDA_LINK
           then (case lambda_parts senv (oset ! 0) of
                   Inl e \<Rightarrow> Inl e
                 | Inr (vl, b) \<Rightarrow> Inr (sc\<lparr>body := Some b, varlist := vl\<rparr>))
           else Inr (sc\<lparr>body := Some (oset ! 0), varlist := find_variables senv (oset ! 0)\<rparr>))
        else if length oset < 2 then Inl SyntaxException
        else init_scoped_variables senv
               (sc\<lparr>vardecl := Some (oset ! 0), body := Some (oset ! 1)\<rparr>) (oset ! 0))"

text \<open>
  The object the base class constructor \<open>Link(t, oset, tv, av)\<close> leaves before
  \<open>init\<close>: no declaration, no body, no variables.
\<close>

definition Link_base :: "Type \<Rightarrow> HandleSeq \<Rightarrow> ScopeLink" where
  "Link_base t oset =
     \<lparr>scope_type = t, outgoing = oset, vardecl = None, body = None,
      varlist = \<lparr>varseq = [], typemap = []\<rparr>\<rparr>"

definition init :: "ScopeEnv \<Rightarrow> ScopeLink \<Rightarrow> error + ScopeLink" where
  "init senv sc = extract_variables senv sc (outgoing sc)"

text \<open>
  The constructors: \<open>ScopeLink(oset)\<close>, \<open>ScopeLink(vars, body)\<close>, then
  \<open>ScopeLink(t, body)\<close> and \<open>ScopeLink(t, oset)\<close>, which leave the initialisation to
  the derived class when \<open>t\<close> is not \<open>SCOPE_LINK\<close>, and \<open>ScopeLink(Link&)\<close>.
\<close>

definition ScopeLink_oset :: "ScopeEnv \<Rightarrow> HandleSeq \<Rightarrow> error + ScopeLink" where
  "ScopeLink_oset senv oset = init senv (Link_base SCOPE_LINK oset)"

definition ScopeLink_vars_body :: "ScopeEnv \<Rightarrow> atom \<Rightarrow> atom \<Rightarrow> error + ScopeLink" where
  "ScopeLink_vars_body senv vars b = init senv (Link_base SCOPE_LINK [vars, b])"

definition ScopeLink_type_body :: "ScopeEnv \<Rightarrow> Type \<Rightarrow> atom \<Rightarrow> error + ScopeLink" where
  "ScopeLink_type_body senv t b =
     (if SCOPE_LINK \<noteq> t then Inr (Link_base t [b]) else init senv (Link_base t [b]))"

definition ScopeLink_type_oset :: "ScopeEnv \<Rightarrow> Type \<Rightarrow> HandleSeq \<Rightarrow> error + ScopeLink" where
  "ScopeLink_type_oset senv t oset =
     (if SCOPE_LINK \<noteq> t then Inr (Link_base t oset) else init senv (Link_base t oset))"

definition ScopeLink_copy :: "ScopeEnv \<Rightarrow> atom \<Rightarrow> error + ScopeLink" where
  "ScopeLink_copy senv l =
     (let tscope = getType l in
      if \<not> isA senv tscope SCOPE_LINK then Inl InvalidParamException
      else if SCOPE_LINK \<noteq> tscope then Inr (Link_base tscope (getOutgoingSet l))
      else init senv (Link_base tscope (getOutgoingSet l)))"

text \<open>
  Modelled from the spec: \<open>Variables::is_equal\<close>, which is not in the two files.
  "Variable Lists must be structurally equal (same count, same per-position type
  restrictions)".
\<close>

definition Variables_is_equal :: "Variables \<Rightarrow> Variables \<Rightarrow> bool" where
  "Variables_is_equal a b =
     list_all2 (\<lambda>x y. map_of (typemap a) x = map_of (typemap b) y) (varseq a) (varseq b)"

text \<open>
  Modelled from the spec: \<open>Variables::substitute_nocheck\<close>, which is not in the two
  files. "substitute other's variables with this scope's variables (by position)
  throughout other's term, with no type-compatibility re-check".
\<close>

fun substitute_nocheck :: "Variables \<Rightarrow> atom \<Rightarrow> HandleSeq \<Rightarrow> atom" where
  "substitute_nocheck vl (Node t n) args =
     (case map_of (zip (varseq vl) args) (Node t n) of Some r \<Rightarrow> r | None \<Rightarrow> Node t n)"
| "substitute_nocheck vl (Link t out) args =
     (case map_of (zip (varseq vl) args) (Link t out) of
        Some r \<Rightarrow> r
      | None \<Rightarrow> Link t (map (\<lambda>h. substitute_nocheck vl h args) out))"

text \<open>
  \<open>Arity\<close> is an unsigned 16-bit type: \<open>getArity\<close> and the difference
  \<open>getArity() - vardecl_offset\<close> are taken modulo \<open>2^16\<close>.
\<close>

definition getArity :: "ScopeLink \<Rightarrow> nat" where
  "getArity sc = length (outgoing sc) mod 2 ^ 16"

definition arity_sub :: "nat \<Rightarrow> nat \<Rightarrow> nat" where
  "arity_sub a k = nat ((int a - int k) mod 2 ^ 16)"

text \<open>
  Modelled from the spec: \<open>Atom::operator!=\<close>, the comparison \<open>*h != *other_h\<close> of two
  atoms, which is not in the two files. "require structural equality with this
  scope's term".
\<close>

definition atom_differs :: "atom \<Rightarrow> atom \<Rightarrow> bool" where
  "atom_differs a b = (a \<noteq> b)"

text \<open>Lines 182-188 of \<open>is_equal\<close>, from the index \<open>i\<close>.\<close>

function is_equal_loop ::
  "ScopeLink \<Rightarrow> ScopeLink \<Rightarrow> nat \<Rightarrow> nat \<Rightarrow> nat \<Rightarrow> nat \<Rightarrow> error + bool" where
  "is_equal_loop this other vardecl_offset other_vardecl_offset n_scoped_terms i =
     (if i < n_scoped_terms then
        (case outgoing_at (outgoing this) (i + vardecl_offset) of
           Inl e \<Rightarrow> Inl e
         | Inr h \<Rightarrow>
             (case outgoing_at (outgoing other) (i + other_vardecl_offset) of
                Inl e \<Rightarrow> Inl e
              | Inr other_h \<Rightarrow>
                  (if atom_differs h
                        (substitute_nocheck (varlist other) other_h (varseq (varlist this)))
                   then Inr False
                   else is_equal_loop this other vardecl_offset other_vardecl_offset
                          n_scoped_terms (i + 1))))
      else Inr True)"
  by pat_completeness auto
termination
  by (relation "measure (\<lambda>(this, other, k, ok, n, i). n - i)") auto

text \<open>
  \<open>is_equal\<close>. Atoms are immutable, so the identity test \<open>other == this\<close> is the
  equality of the two objects.
\<close>

definition is_equal :: "ScopeLink \<Rightarrow> ScopeLink \<Rightarrow> error + bool" where
  "is_equal this other =
     (if other = this then Inr True
      else if scope_type other \<noteq> scope_type this then Inr False
      else
        let vardecl_offset = (if vardecl this \<noteq> None then 1 else 0);
            other_vardecl_offset = (if vardecl other \<noteq> None then 1 else 0);
            n_scoped_terms = arity_sub (getArity this) vardecl_offset;
            other_n_scoped_terms = arity_sub (getArity other) other_vardecl_offset
        in if n_scoped_terms \<noteq> other_n_scoped_terms then Inr False
           else if \<not> Variables_is_equal (varlist this) (varlist other) then Inr False
           else is_equal_loop this other vardecl_offset other_vardecl_offset n_scoped_terms 0)"

section \<open>Notions the properties are stated with\<close>

text \<open>The leaves of an atom, one entry for every occurrence, from left to right.\<close>

fun leaf_nodes :: "atom \<Rightarrow> atom list" where
  "leaf_nodes (Node t n) = [Node t n]"
| "leaf_nodes (Link t out) = concat (map leaf_nodes out)"

text \<open>Every quoting link of the atom has exactly one member, and no node has its type.\<close>

fun quotes_unary :: "atom \<Rightarrow> bool" where
  "quotes_unary (Node t n) = (t \<noteq> QUOTE_LINK)"
| "quotes_unary (Link t out) = ((t = QUOTE_LINK \<longrightarrow> length out = 1) \<and> list_all quotes_unary out)"

text \<open>
  \<open>ys\<close> is a result \<open>std::sort\<close> may give for \<open>xs\<close> with the comparator \<open>lt\<close>: a
  permutation in which no later element is less than an earlier one.
\<close>

definition is_sort_of :: "('a \<Rightarrow> 'a \<Rightarrow> bool) \<Rightarrow> 'a list \<Rightarrow> 'a list \<Rightarrow> bool" where
  "is_sort_of lt xs ys = (mset ys = mset xs \<and> sorted_wrt (\<lambda>a b. \<not> lt b a) ys)"

text \<open>
  \<open>zs\<close> is a list lines 119-144 may leave for the starters \<open>ps\<close>, whatever the two
  calls of \<open>std::sort\<close> do with equivalent elements.
\<close>

definition is_ranking :: "Starter list \<Rightarrow> Starter list \<Rightarrow> bool" where
  "is_ranking ps zs =
     (\<exists>ys. is_sort_of sort_by_uuid ps ys \<and>
           is_sort_of sort_by_wd (std_unique check_uniqueness ys) zs)"

text \<open>The candidate has a node of the reject list (lines 237-238).\<close>

definition rejected :: "Env \<Rightarrow> FuzzyPatternMatchCB \<Rightarrow> atom \<Rightarrow> bool" where
  "rejected env st gh = list_ex (std_find env (get_all_nodes env gh)) (reject_list st)"

text \<open>The similarity \<open>check_if_accept\<close> computes for a candidate it does not reject.\<close>

definition candidate_score :: "Env \<Rightarrow> FuzzyPatternMatchCB \<Rightarrow> atom \<Rightarrow> atom \<Rightarrow> int" where
  "candidate_score env st ph gh =
     estimate_similarity env (pat_size st) (get_all_nodes env ph) (get_all_nodes env gh)"

text \<open>A leaf \<open>find_starters\<close> records: a node that is no variable and has no \<open>@\<close> in its name.\<close>

definition is_starter_node :: "atom \<Rightarrow> bool" where
  "is_starter_node a =
     (case a of Node t n \<Rightarrow> t \<noteq> VARIABLE_NODE \<and> CHR ''@'' \<notin> set n | Link t out \<Rightarrow> False)"

text \<open>
  From \<open>st\<close> to \<open>st'\<close> the leaves \<open>ls\<close> were counted: each in \<open>pat_size\<close>, the variables
  in \<open>var_size\<close>, and the starters among them appended in order.
\<close>

definition counted :: "FuzzyPatternMatchCB \<Rightarrow> FuzzyPatternMatchCB \<Rightarrow> atom list \<Rightarrow> bool" where
  "counted st st' ls =
     (pat_size st' = pat_size st + length ls \<and>
      var_size st' = var_size st + length (filter (\<lambda>a. getType a = VARIABLE_NODE) ls) \<and>
      (\<exists>new. potential_starters st' = potential_starters st @ new \<and>
             map handle new = filter is_starter_node ls))"

text \<open>From \<open>st\<close> to \<open>st'\<close> starters were only appended, each with the property \<open>P\<close>.\<close>

definition appended ::
  "FuzzyPatternMatchCB \<Rightarrow> FuzzyPatternMatchCB \<Rightarrow> (Starter \<Rightarrow> bool) \<Rightarrow> bool" where
  "appended st st' P =
     (\<exists>new. potential_starters st' = potential_starters st @ new \<and> (\<forall>s \<in> set new. P s))"

text \<open>A starter of the clause \<open>ci\<close>: a starter node among \<open>ls\<close>, found under a term.\<close>

definition starter_in :: "atom list \<Rightarrow> nat \<Rightarrow> Starter \<Rightarrow> bool" where
  "starter_in ls ci s =
     (is_starter_node (handle s) \<and> handle s \<in> set ls \<and> clause_idx s = ci \<and> term_h s \<noteq> None)"

fun is_link :: "atom \<Rightarrow> bool" where
  "is_link (Node t n) = False"
| "is_link (Link t out) = True"

section \<open>An example store\<close>

text \<open>
  A store that holds the atoms of a list: the identifier of an atom is its position,
  its incoming set are the links of the list that have it as a member, and
  \<open>get_all_nodes\<close> lists the leaves of an atom, one entry for every occurrence.
\<close>

definition list_store :: "atom list \<Rightarrow> nat \<Rightarrow> Env" where
  "list_store atoms cap =
     \<lparr>value_of = (\<lambda>a. length (takeWhile (\<lambda>b. b \<noteq> a) atoms)),
      getIncomingSetSize = (\<lambda>a. length (filter (\<lambda>l. a \<in> set (getOutgoingSet l)) atoms)),
      getIncomingSet = (\<lambda>a. filter (\<lambda>l. a \<in> set (getOutgoingSet l)) atoms),
      get_all_nodes = leaf_nodes,
      MAX_SEARCHES = cap\<rparr>"

text \<open>A search engine that compares the clause with every link that holds the candidate.\<close>

definition report_pme :: "Env \<Rightarrow> PatternMatchEngine" where
  "report_pme env root tm h st =
     foldl (\<lambda>st' g. snd (clause_match env st' root g)) st (getIncomingSet env h)"

definition fresh_matcher :: "HandleSeq \<Rightarrow> FuzzyPatternMatchCB" where
  "fresh_matcher rl =
     \<lparr>reject_list = rl, potential_starters = [], pat_size = 0, var_size = 0,
      prev_compared = [], similarity = 0, max_similarity = - (2 ^ 63), solns = []\<rparr>"

definition cn :: "string \<Rightarrow> atom" where
  "cn name = Node CONCEPT_NODE name"

definition vn :: "string \<Rightarrow> atom" where
  "vn name = Node VARIABLE_NODE name"

definition ex_pattern :: atom where
  "ex_pattern = Link LIST_LINK [cn ''a'', cn ''b'', cn ''c'', cn ''d'', cn ''e'']"

definition ex_g1 :: atom where
  "ex_g1 = Link LIST_LINK [cn ''a'', cn ''b'', cn ''c'', cn ''f'', cn ''g'']"

definition ex_g2 :: atom where
  "ex_g2 = Link EVALUATION_LINK [cn ''a'', cn ''b'', cn ''c'', cn ''d'', cn ''e'']"

definition ex_g3 :: atom where
  "ex_g3 = Link LIST_LINK [cn ''e'', cn ''d'', cn ''c'', cn ''b'', cn ''a'']"

definition ex_g4 :: atom where
  "ex_g4 = Link LIST_LINK [cn ''a'', cn ''b'', cn ''f'', cn ''g'', cn ''h'']"

definition ex_twice :: atom where
  "ex_twice = Link LIST_LINK [cn ''a'', cn ''a'']"

definition ex_atoms :: "atom list" where
  "ex_atoms = [cn ''a'', cn ''b'', cn ''c'', cn ''d'', cn ''e'', cn ''f'', cn ''g'', cn ''h'',
               ex_pattern, ex_g1, ex_g2, ex_g3, ex_g4, ex_twice]"

definition ex_env :: Env where
  "ex_env = list_store ex_atoms 1"

text \<open>A matcher whose pattern has five leaves, and one whose pattern has two.\<close>

definition ex_matcher :: "HandleSeq \<Rightarrow> FuzzyPatternMatchCB" where
  "ex_matcher rl = (fresh_matcher rl)\<lparr>pat_size := 5\<rparr>"

definition ex_matcher2 :: FuzzyPatternMatchCB where
  "ex_matcher2 = (fresh_matcher [])\<lparr>pat_size := 2\<rparr>"

text \<open>
  The clause \<open>likes($x, pizza)\<close>, a clause of variables only, and a clause with a
  quoted variable and an instance node; a store with two facts.
\<close>

definition likes :: "atom \<Rightarrow> atom \<Rightarrow> atom" where
  "likes a b = Link EVALUATION_LINK [Node PREDICATE_NODE ''likes'', Link LIST_LINK [a, b]]"

definition ex_clause :: atom where
  "ex_clause = likes (vn ''$x'') (cn ''pizza'')"

definition ex_var_clause :: atom where
  "ex_var_clause = Link LIST_LINK [vn ''$x'', Link QUOTE_LINK [vn ''$y'']]"

definition ex_inst_clause :: atom where
  "ex_inst_clause = Link LIST_LINK [cn ''pizza@42'', Link QUOTE_LINK [vn ''$y''], cn ''pasta'']"

definition ex_corpus :: "atom list" where
  "ex_corpus =
     [Node PREDICATE_NODE ''likes'', cn ''pizza'', cn ''pasta'', cn ''Ann'', cn ''Bob'', vn ''$x'',
      Link LIST_LINK [cn ''Ann'', cn ''pizza''], Link LIST_LINK [cn ''Bob'', cn ''pasta''],
      Link LIST_LINK [vn ''$x'', cn ''pizza''],
      likes (cn ''Ann'') (cn ''pizza''), likes (cn ''Bob'') (cn ''pasta''), ex_clause]"

definition ex_corpus_env :: Env where
  "ex_corpus_env = list_store ex_corpus 1"

definition ex_query :: Pattern where
  "ex_query = \<lparr>mandatory = [ex_clause], evaluatable_holders = []\<rparr>"

text \<open>A query whose one clause is a node.\<close>

definition ex_node_query :: Pattern where
  "ex_node_query = \<lparr>mandatory = [cn ''pizza''], evaluatable_holders = []\<rparr>"

definition ex_starters :: "Starter list" where
  "ex_starters =
     [\<lparr>uuid = 3, handle = cn ''Ann'', term_h = Some (Link LIST_LINK [cn ''Ann'', cn ''pizza'']),
       clause_idx = 0, width = 2, depth = 1\<rparr>,
      \<lparr>uuid = 1, handle = cn ''pizza'', term_h = Some (Link LIST_LINK [cn ''Ann'', cn ''pizza'']),
       clause_idx = 0, width = 2, depth = 2\<rparr>,
      \<lparr>uuid = 3, handle = cn ''Ann'', term_h = Some (Link LIST_LINK [cn ''Ann'', cn ''pasta'']),
       clause_idx = 1, width = 2, depth = 3\<rparr>,
      \<lparr>uuid = 2, handle = cn ''pasta'', term_h = Some (Link LIST_LINK [cn ''Ann'', cn ''pasta'']),
       clause_idx = 1, width = 1, depth = 1\<rparr>]"

text \<open>
  Scopes with one declared variable and one body, and the services that unpack an
  untyped declaration (a variable list gives its members, any other declaration
  itself).
\<close>

definition ex_senv :: ScopeEnv where
  "ex_senv =
     \<lparr>isA = (\<lambda>t u. t = u),
      lambda_parts = (\<lambda>a. Inl RuntimeException),
      find_variables = (\<lambda>a. \<lparr>varseq = remdups (filter (\<lambda>l. getType l = VARIABLE_NODE) (leaf_nodes a)),
                                typemap = []\<rparr>),
      VariableList_get_variables =
        (\<lambda>h. Inr \<lparr>varseq = (if getType h = VARIABLE_LIST then getOutgoingSet h else [h]),
                   typemap = []\<rparr>)\<rparr>"

definition scope_over :: "atom \<Rightarrow> atom \<Rightarrow> ScopeLink" where
  "scope_over v b =
     \<lparr>scope_type = SCOPE_LINK, outgoing = [v, b], vardecl = Some v, body = Some b,
      varlist = \<lparr>varseq = [v], typemap = []\<rparr>\<rparr>"

definition ex_pred :: "string \<Rightarrow> atom list \<Rightarrow> atom" where
  "ex_pred name args = Link EVALUATION_LINK [Node PREDICATE_NODE name, Link LIST_LINK args]"

section \<open>Scoring: the best score and the solution set\<close>

lemma check_if_accept_rejected: "rejected env st gh \<Longrightarrow> check_if_accept env st ph gh = st"
  by (simp add: check_if_accept_def rejected_def)

lemma check_if_accept_frame:
  "reject_list (check_if_accept env st ph gh) = reject_list st"
  "pat_size (check_if_accept env st ph gh) = pat_size st"
  "var_size (check_if_accept env st ph gh) = var_size st"
  "prev_compared (check_if_accept env st ph gh) = prev_compared st"
  "potential_starters (check_if_accept env st ph gh) = potential_starters st"
  by (simp_all add: check_if_accept_def Let_def)

lemma check_if_accept_step:
  assumes "\<not> rejected env st gh"
  shows "max_similarity (check_if_accept env st ph gh) = max (max_similarity st) (candidate_score env st ph gh)"
    and "solns (check_if_accept env st ph gh) =
      (if max_similarity st < candidate_score env st ph gh then [gh]
       else if candidate_score env st ph gh = max_similarity st then solns st @ [gh]
       else solns st)"
    and "similarity (check_if_accept env st ph gh) = candidate_score env st ph gh"
  using assms by (simp_all add: check_if_accept_def rejected_def candidate_score_def Let_def)

lemma rejected_frame: "rejected env (check_if_accept env st ph gh) g = rejected env st g"
  by (simp add: rejected_def check_if_accept_frame)

lemma score_frame: "candidate_score env (check_if_accept env st ph gh) p g = candidate_score env st p g"
  by (simp add: candidate_score_def check_if_accept_frame)

text \<open>The example store: identifiers, leaves and scores.\<close>

lemma ex_values:
  "value_of ex_env (cn ''a'') = 0" "value_of ex_env (cn ''b'') = 1" "value_of ex_env (cn ''c'') = 2"
  "value_of ex_env (cn ''d'') = 3" "value_of ex_env (cn ''e'') = 4" "value_of ex_env (cn ''f'') = 5"
  "value_of ex_env (cn ''g'') = 6" "value_of ex_env (cn ''h'') = 7"
  "value_of ex_env ex_pattern = 8" "value_of ex_env ex_g1 = 9" "value_of ex_env ex_g2 = 10"
  "value_of ex_env ex_g3 = 11" "value_of ex_env ex_g4 = 12" "value_of ex_env ex_twice = 13"
  by (simp_all add: ex_env_def list_store_def ex_atoms_def cn_def ex_pattern_def ex_g1_def ex_g2_def
      ex_g3_def ex_g4_def ex_twice_def)

lemma ex_leaves:
  "get_all_nodes ex_env ex_pattern = [cn ''a'', cn ''b'', cn ''c'', cn ''d'', cn ''e'']"
  "get_all_nodes ex_env ex_g1 = [cn ''a'', cn ''b'', cn ''c'', cn ''f'', cn ''g'']"
  "get_all_nodes ex_env ex_g2 = [cn ''a'', cn ''b'', cn ''c'', cn ''d'', cn ''e'']"
  "get_all_nodes ex_env ex_g3 = [cn ''e'', cn ''d'', cn ''c'', cn ''b'', cn ''a'']"
  "get_all_nodes ex_env ex_g4 = [cn ''a'', cn ''b'', cn ''f'', cn ''g'', cn ''h'']"
  "get_all_nodes ex_env ex_twice = [cn ''a'', cn ''a'']"
  by (simp_all add: ex_env_def list_store_def cn_def ex_pattern_def ex_g1_def ex_g2_def
      ex_g3_def ex_g4_def ex_twice_def)

lemma ex_scores:
  "candidate_score ex_env (ex_matcher rl) ex_pattern ex_g1 = 3"
  "candidate_score ex_env (ex_matcher rl) ex_pattern ex_g2 = 5"
  "candidate_score ex_env (ex_matcher rl) ex_pattern ex_g3 = 5"
  "candidate_score ex_env (ex_matcher rl) ex_pattern ex_g4 = 2"
  "candidate_score ex_env (ex_matcher rl) ex_g3 ex_g2 = 5"
  by (simp_all add: candidate_score_def estimate_similarity_def ex_leaves ex_matcher_def
      fresh_matcher_def handle_less_def ex_values int_cast_def size_t_sub_def)

lemma ex_not_rejected: "\<not> rejected ex_env (ex_matcher []) g"
  by (simp add: rejected_def ex_matcher_def fresh_matcher_def)

text \<open>
  C1. A candidate that is not rejected and scores above the best score becomes the
  only solution and its score the best score; one that scores the best score is
  appended; one that scores less changes neither. Candidates that score 3, 5, 5, 2
  in this order, after a best score below 3, leave the two candidates that scored 5,
  in the order met, and the best score 5.
\<close>

theorem check_if_accept_tracks_best:
  "(\<not> rejected env st gh \<longrightarrow>
     (max_similarity st < candidate_score env st ph gh \<longrightarrow>
        max_similarity (check_if_accept env st ph gh) = candidate_score env st ph gh \<and>
        solns (check_if_accept env st ph gh) = [gh]) \<and>
     (candidate_score env st ph gh = max_similarity st \<longrightarrow>
        max_similarity (check_if_accept env st ph gh) = max_similarity st \<and>
        solns (check_if_accept env st ph gh) = solns st @ [gh]) \<and>
     (candidate_score env st ph gh < max_similarity st \<longrightarrow>
        max_similarity (check_if_accept env st ph gh) = max_similarity st \<and>
        solns (check_if_accept env st ph gh) = solns st))
   \<and>
   (\<not> rejected env st g1 \<and> \<not> rejected env st g2 \<and> \<not> rejected env st g3 \<and> \<not> rejected env st g4 \<and>
    max_similarity st < 3 \<and>
    candidate_score env st p1 g1 = 3 \<and> candidate_score env st p2 g2 = 5 \<and>
    candidate_score env st p3 g3 = 5 \<and> candidate_score env st p4 g4 = 2 \<longrightarrow>
      solns (foldl (\<lambda>s (p, g). check_if_accept env s p g) st [(p1, g1), (p2, g2), (p3, g3), (p4, g4)])
        = [g2, g3] \<and>
      max_similarity (foldl (\<lambda>s (p, g). check_if_accept env s p g) st [(p1, g1), (p2, g2), (p3, g3), (p4, g4)])
        = 5)"
proof (intro conjI impI)
  assume "\<not> rejected env st gh" "max_similarity st < candidate_score env st ph gh"
  then show "max_similarity (check_if_accept env st ph gh) = candidate_score env st ph gh"
    and "solns (check_if_accept env st ph gh) = [gh]"
    by (simp_all add: check_if_accept_step)
next
  assume "\<not> rejected env st gh" "candidate_score env st ph gh = max_similarity st"
  then show "max_similarity (check_if_accept env st ph gh) = max_similarity st"
    and "solns (check_if_accept env st ph gh) = solns st @ [gh]"
    by (simp_all add: check_if_accept_step)
next
  assume "\<not> rejected env st gh" "candidate_score env st ph gh < max_similarity st"
  then show "max_similarity (check_if_accept env st ph gh) = max_similarity st"
    and "solns (check_if_accept env st ph gh) = solns st"
    by (simp_all add: check_if_accept_step)
next
  assume a: "\<not> rejected env st g1 \<and> \<not> rejected env st g2 \<and> \<not> rejected env st g3 \<and> \<not> rejected env st g4 \<and>
    max_similarity st < 3 \<and>
    candidate_score env st p1 g1 = 3 \<and> candidate_score env st p2 g2 = 5 \<and>
    candidate_score env st p3 g3 = 5 \<and> candidate_score env st p4 g4 = 2"
  define s1 where "s1 = check_if_accept env st p1 g1"
  define s2 where "s2 = check_if_accept env s1 p2 g2"
  define s3 where "s3 = check_if_accept env s2 p3 g3"
  define s4 where "s4 = check_if_accept env s3 p4 g4"
  have r1: "\<not> rejected env s1 g2" "\<not> rejected env s2 g3" "\<not> rejected env s3 g4"
    using a by (simp_all add: s1_def s2_def s3_def rejected_frame)
  have c: "candidate_score env s1 p2 g2 = 5" "candidate_score env s2 p3 g3 = 5"
    "candidate_score env s3 p4 g4 = 2"
    using a by (simp_all add: s1_def s2_def s3_def score_frame)
  have m1: "max_similarity s1 = 3" "solns s1 = [g1]"
    using a by (simp_all add: s1_def check_if_accept_step)
  have m2: "max_similarity s2 = 5" "solns s2 = [g2]"
    using r1 c m1 by (simp_all add: s2_def check_if_accept_step)
  have m3: "max_similarity s3 = 5" "solns s3 = [g2, g3]"
    using r1 c m2 by (simp_all add: s3_def check_if_accept_step)
  have m4: "max_similarity s4 = 5" "solns s4 = [g2, g3]"
    using r1 c m3 by (simp_all add: s4_def check_if_accept_step)
  have f: "foldl (\<lambda>s (p, g). check_if_accept env s p g) st [(p1, g1), (p2, g2), (p3, g3), (p4, g4)] = s4"
    by (simp add: s1_def s2_def s3_def s4_def)
  show "solns (foldl (\<lambda>s (p, g). check_if_accept env s p g) st [(p1, g1), (p2, g2), (p3, g3), (p4, g4)])
        = [g2, g3]"
    and "max_similarity (foldl (\<lambda>s (p, g). check_if_accept env s p g) st [(p1, g1), (p2, g2), (p3, g3), (p4, g4)])
        = 5"
    using m4 f by simp_all
qed

theorem check_if_accept_tracks_best_witness:
  "\<not> rejected ex_env (ex_matcher []) ex_g2 \<and>
   max_similarity (ex_matcher []) < candidate_score ex_env (ex_matcher []) ex_pattern ex_g2 \<and>
   max_similarity (check_if_accept ex_env (ex_matcher []) ex_pattern ex_g2) = 5 \<and>
   solns (check_if_accept ex_env (ex_matcher []) ex_pattern ex_g2) = [ex_g2] \<and>
   candidate_score ex_env (ex_matcher []) ex_pattern ex_g1 = 3 \<and>
   candidate_score ex_env (ex_matcher []) ex_pattern ex_g2 = 5 \<and>
   candidate_score ex_env (ex_matcher []) ex_pattern ex_g3 = 5 \<and>
   candidate_score ex_env (ex_matcher []) ex_pattern ex_g4 = 2 \<and>
   solns (foldl (\<lambda>s (p, g). check_if_accept ex_env s p g) (ex_matcher [])
            [(ex_pattern, ex_g1), (ex_pattern, ex_g2), (ex_pattern, ex_g3), (ex_pattern, ex_g4)])
     = [ex_g2, ex_g3] \<and>
   max_similarity (foldl (\<lambda>s (p, g). check_if_accept ex_env s p g) (ex_matcher [])
            [(ex_pattern, ex_g1), (ex_pattern, ex_g2), (ex_pattern, ex_g3), (ex_pattern, ex_g4)])
     = 5"
proof -
  have m: "max_similarity (ex_matcher []) < 3"
    by (simp add: ex_matcher_def fresh_matcher_def)
  show ?thesis
    using check_if_accept_tracks_best [of ex_env "ex_matcher []" ex_g2 ex_pattern
        ex_g1 ex_g2 ex_g3 ex_g4 ex_pattern ex_pattern ex_pattern ex_pattern]
      ex_not_rejected m
    by (simp add: ex_scores)
qed

text \<open>
  C3. A candidate with a node of the reject list among its nodes leaves the matcher
  as it was: no score is computed, and best score and solutions stay.
\<close>

theorem rejected_candidate_changes_nothing:
  "(\<exists>rh \<in> set (reject_list st). \<exists>g \<in> set (get_all_nodes env gh). value_of env g = value_of env rh)
   \<Longrightarrow> check_if_accept env st ph gh = st"
  by (simp add: check_if_accept_def std_find_def handle_eq_def list_ex_iff)

theorem rejected_candidate_changes_nothing_witness:
  "cn ''e'' \<in> set (reject_list (ex_matcher [cn ''e''])) \<and>
   cn ''e'' \<in> set (get_all_nodes ex_env ex_g2) \<and>
   candidate_score ex_env (ex_matcher [cn ''e'']) ex_pattern ex_g2 = 5 \<and>
   max_similarity (ex_matcher [cn ''e'']) < 5 \<and>
   check_if_accept ex_env (ex_matcher [cn ''e'']) ex_pattern ex_g2 = ex_matcher [cn ''e'']"
proof -
  have 1: "cn ''e'' \<in> set (reject_list (ex_matcher [cn ''e'']))"
    by (simp add: ex_matcher_def fresh_matcher_def)
  have 2: "cn ''e'' \<in> set (get_all_nodes ex_env ex_g2)"
    by (simp add: ex_leaves)
  have 3: "max_similarity (ex_matcher [cn ''e'']) < 5"
    by (simp add: ex_matcher_def fresh_matcher_def)
  have "\<exists>rh \<in> set (reject_list (ex_matcher [cn ''e''])).
          \<exists>g \<in> set (get_all_nodes ex_env ex_g2). value_of ex_env g = value_of ex_env rh"
    using 1 2 by blast
  then show ?thesis
    using rejected_candidate_changes_nothing [of "ex_matcher [cn ''e'']" ex_env ex_g2 ex_pattern] 1 2 3
    by (simp add: ex_scores)
qed

section \<open>Scoring: the similarity\<close>

lemma mset_sort_insert: "mset (sort_insert lt x xs) = add_mset x (mset xs)"
  by (induction xs) auto

lemma mset_std_sort: "mset (std_sort lt xs) = mset xs"
  by (induction xs) (auto simp: mset_sort_insert)

lemma length_std_sort: "length (std_sort lt xs) = length xs"
  using mset_std_sort [of lt xs] by (metis size_mset)

lemma set_std_sort: "set (std_sort lt xs) = set xs"
  using mset_std_sort [of lt xs] by (metis set_mset_mset)

lemma set_sort_insert: "set (sort_insert lt x xs) = insert x (set xs)"
  by (induction xs) auto

text \<open>
  What \<open>std::sort\<close> promises for a comparator that is a strict weak ordering: no later
  element of the result is less than an earlier one.
\<close>

lemma sorted_wrt_sort_insert:
  assumes tr: "\<And>a b c. \<not> lt b a \<Longrightarrow> \<not> lt c b \<Longrightarrow> \<not> lt c a"
    and asym: "\<And>a b. lt a b \<Longrightarrow> \<not> lt b a"
  shows "sorted_wrt (\<lambda>a b. \<not> lt b a) xs \<Longrightarrow> sorted_wrt (\<lambda>a b. \<not> lt b a) (sort_insert lt x xs)"
proof (induction xs)
  case Nil
  then show ?case by simp
next
  case (Cons y ys)
  show ?case
  proof (cases "lt y x")
    case True
    then have "\<not> lt x y" by (rule asym)
    then show ?thesis using True Cons by (auto simp: set_sort_insert)
  next
    case False
    moreover have "\<forall>z \<in> set ys. \<not> lt z x"
      using Cons.prems False tr by auto
    ultimately show ?thesis using Cons.prems by simp
  qed
qed

lemma sorted_wrt_std_sort:
  assumes tr: "\<And>a b c. \<not> lt b a \<Longrightarrow> \<not> lt c b \<Longrightarrow> \<not> lt c a"
    and asym: "\<And>a b. lt a b \<Longrightarrow> \<not> lt b a"
  shows "sorted_wrt (\<lambda>a b. \<not> lt b a) (std_sort lt xs)"
  by (induction xs) (auto intro: sorted_wrt_sort_insert [OF tr asym])

lemma sorted_std_sort_key:
  fixes key :: "'a \<Rightarrow> nat"
  shows "sorted (map key (std_sort (\<lambda>a b. key a < key b) xs))"
proof -
  have "sorted_wrt (\<lambda>a b. \<not> key b < key a) (std_sort (\<lambda>a b. key a < key b) xs)"
    by (rule sorted_wrt_std_sort) auto
  then show ?thesis by (simp add: sorted_map not_less)
qed

text \<open>On sorted ranges \<open>std::set_intersection\<close> keeps an identifier as often as both have it.\<close>

lemma mset_set_intersection_key:
  fixes key :: "'a \<Rightarrow> nat"
  shows "sorted (map key xs) \<Longrightarrow> sorted (map key ys) \<Longrightarrow>
    mset (map key (set_intersection (\<lambda>a b. key a < key b) xs ys)) = mset (map key xs) \<inter># mset (map key ys)"
proof (induction "\<lambda>a b. key a < key b" xs ys rule: set_intersection.induct)
  case (1 ys)
  then show ?case by simp
next
  case (2 x xs)
  then show ?case by simp
next
  case (3 x xs y ys)
  show ?case
  proof (cases "key x < key y")
    case True
    then have "key x \<notin> set (map key (y # ys))" using 3(5) by auto
    then have "key x \<notin># mset (map key (y # ys))" by (metis set_mset_mset)
    then have "mset (map key (x # xs)) \<inter># mset (map key (y # ys)) = mset (map key xs) \<inter># mset (map key (y # ys))"
      by (simp add: inter_add_left1)
    with True 3 show ?thesis by simp
  next
    case False
    show ?thesis
    proof (cases "key y < key x")
      case True
      then have "key y \<notin> set (map key (x # xs))" using 3(4) by auto
      then have "key y \<notin># mset (map key (x # xs))" by (metis set_mset_mset)
      then have "mset (map key (x # xs)) \<inter># mset (map key (y # ys)) = mset (map key (x # xs)) \<inter># mset (map key ys)"
        by (simp add: inter_add_right1)
      with True False 3 show ?thesis by simp
    next
      case F2: False
      with False have "key x = key y" by simp
      with False 3 show ?thesis by simp
    qed
  qed
qed

lemma int_cast_size_t_sub:
  assumes "- (2 ^ 31) \<le> int a - int b" "int a - int b < 2 ^ 31"
  shows "int_cast (size_t_sub a b) = int a - int b"
proof -
  have "((int a - int b) mod 2 ^ 64) mod 2 ^ 32 = (int a - int b) mod (2 ^ 32 :: int)"
    by (rule mod_mod_cancel) simp
  moreover have "(int a - int b) mod (2 ^ 32 :: int) = (if 0 \<le> int a - int b then int a - int b else int a - int b + 2 ^ 32)"
  proof (cases "0 \<le> int a - int b")
    case True
    then show ?thesis using assms by simp
  next
    case False
    then have "(int a - int b + 2 ^ 32) mod (2 ^ 32 :: int) = int a - int b + 2 ^ 32"
      using assms by (intro mod_pos_pos_trivial) simp_all
    then show ?thesis using False by simp
  qed
  ultimately show ?thesis using assms by (simp add: int_cast_def size_t_sub_def Let_def)
qed

lemma estimate_similarity_mset:
  "estimate_similarity env psize pn gn =
     int (size (mset (map (value_of env) pn) \<inter># mset (map (value_of env) gn)))
     - \<bar>int_cast (size_t_sub psize (length gn))\<bar>"
proof -
  let ?lt = "\<lambda>a b. value_of env a < value_of env b"
  have hl: "handle_less env = ?lt" by (intro ext) (simp add: handle_less_def)
  have "length (set_intersection ?lt (std_sort ?lt pn) (std_sort ?lt gn))
      = size (mset (map (value_of env) (set_intersection ?lt (std_sort ?lt pn) (std_sort ?lt gn))))"
    by simp
  also have "\<dots> = size (mset (map (value_of env) (std_sort ?lt pn)) \<inter># mset (map (value_of env) (std_sort ?lt gn)))"
    by (simp only: mset_set_intersection_key [OF sorted_std_sort_key sorted_std_sort_key])
  also have "\<dots> = size (mset (map (value_of env) pn) \<inter># mset (map (value_of env) gn))"
    by (simp add: mset_std_sort)
  finally show ?thesis
    by (simp add: estimate_similarity_def Let_def hl length_std_sort)
qed

text \<open>The number of common nodes is the same for every result the two sorts may give.\<close>

lemma common_of_any_sort:
  assumes "is_sort_of (handle_less env) pn pn'" "is_sort_of (handle_less env) gn gn'"
  shows "length (set_intersection (handle_less env) pn' gn') =
           size (mset (map (value_of env) pn) \<inter># mset (map (value_of env) gn))"
proof -
  let ?lt = "\<lambda>a b. value_of env a < value_of env b"
  have hl: "handle_less env = ?lt" by (intro ext) (simp add: handle_less_def)
  have sp: "sorted (map (value_of env) pn')" "sorted (map (value_of env) gn')"
    using assms by (simp_all add: is_sort_of_def hl sorted_map not_less)
  have ms: "mset pn' = mset pn" "mset gn' = mset gn"
    using assms by (simp_all add: is_sort_of_def)
  have "length (set_intersection ?lt pn' gn') = size (mset (map (value_of env) (set_intersection ?lt pn' gn')))"
    by simp
  also have "\<dots> = size (mset (map (value_of env) pn') \<inter># mset (map (value_of env) gn'))"
    by (simp only: mset_set_intersection_key [OF sp])
  also have "\<dots> = size (mset (map (value_of env) pn) \<inter># mset (map (value_of env) gn))"
    by (simp add: ms)
  finally show ?thesis by (simp add: hl)
qed

lemma size_inter_distinct:
  assumes "distinct xs" "distinct ys"
  shows "size (mset xs \<inter># mset ys) = card (set xs \<inter> set ys)"
proof -
  have "mset xs \<inter># mset ys = mset_set (set xs \<inter> set ys)"
  proof (rule multiset_eqI)
    fix x
    have cx: "count (mset xs) x = (if x \<in> set xs then 1 else 0)"
      using assms(1) by (simp add: distinct_count_atmost_1)
    have cy: "count (mset ys) x = (if x \<in> set ys then 1 else 0)"
      using assms(2) by (simp add: distinct_count_atmost_1)
    have fin: "finite (set xs \<inter> set ys)" by simp
    show "count (mset xs \<inter># mset ys) x = count (mset_set (set xs \<inter> set ys)) x"
      unfolding count_mset_set' using fin by (simp add: cx cy)
  qed
  then show ?thesis by simp
qed

text \<open>
  C2, as the code has it. For a candidate that is not rejected, and a pattern size
  and a number of candidate nodes less than \<open>2^31\<close> apart, the similarity is
  \<open>common - size_diff\<close>: \<open>common\<close> counts the nodes the two node sequences share, each
  as often as both sequences have it, and \<open>size_diff\<close> is the absolute difference of
  \<open>pat_size\<close> and the length of the candidate's node sequence. Where neither sequence
  repeats a node, \<open>common\<close> is the cardinality of the intersection of the two sets.
\<close>

theorem check_if_accept_similarity:
  assumes "\<not> rejected env st gh"
    and "- (2 ^ 31) < int (pat_size st) - int (length (get_all_nodes env gh))"
    and "int (pat_size st) - int (length (get_all_nodes env gh)) < 2 ^ 31"
  shows "similarity (check_if_accept env st ph gh) =
           int (size (mset (map (value_of env) (get_all_nodes env ph)) \<inter>#
                      mset (map (value_of env) (get_all_nodes env gh))))
           - \<bar>int (pat_size st) - int (length (get_all_nodes env gh))\<bar>
         \<and> (distinct (map (value_of env) (get_all_nodes env ph)) \<and>
             distinct (map (value_of env) (get_all_nodes env gh)) \<longrightarrow>
             similarity (check_if_accept env st ph gh) =
               int (card (value_of env ` set (get_all_nodes env ph) \<inter>
                          value_of env ` set (get_all_nodes env gh)))
               - \<bar>int (pat_size st) - int (length (get_all_nodes env gh))\<bar>)"
proof -
  have s: "similarity (check_if_accept env st ph gh) =
           int (size (mset (map (value_of env) (get_all_nodes env ph)) \<inter>#
                      mset (map (value_of env) (get_all_nodes env gh))))
           - \<bar>int (pat_size st) - int (length (get_all_nodes env gh))\<bar>"
    using assms(1)
    by (simp add: check_if_accept_step candidate_score_def estimate_similarity_mset
        int_cast_size_t_sub [OF less_imp_le [OF assms(2)] assms(3)])
  show ?thesis
  proof (intro conjI impI)
    show "similarity (check_if_accept env st ph gh) =
           int (size (mset (map (value_of env) (get_all_nodes env ph)) \<inter>#
                      mset (map (value_of env) (get_all_nodes env gh))))
           - \<bar>int (pat_size st) - int (length (get_all_nodes env gh))\<bar>"
      by (rule s)
  next
    assume d: "distinct (map (value_of env) (get_all_nodes env ph)) \<and>
             distinct (map (value_of env) (get_all_nodes env gh))"
    then have "size (mset (map (value_of env) (get_all_nodes env ph)) \<inter>#
                      mset (map (value_of env) (get_all_nodes env gh))) =
          card (set (map (value_of env) (get_all_nodes env ph)) \<inter>
                set (map (value_of env) (get_all_nodes env gh)))"
      by (intro size_inter_distinct) simp_all
    then show "similarity (check_if_accept env st ph gh) =
               int (card (value_of env ` set (get_all_nodes env ph) \<inter>
                          value_of env ` set (get_all_nodes env gh)))
               - \<bar>int (pat_size st) - int (length (get_all_nodes env gh))\<bar>"
      using s by simp
  qed
qed

theorem check_if_accept_similarity_witness:
  "\<not> rejected ex_env (ex_matcher []) ex_g1 \<and>
   int (pat_size (ex_matcher [])) - int (length (get_all_nodes ex_env ex_g1)) = 0 \<and>
   distinct (map (value_of ex_env) (get_all_nodes ex_env ex_pattern)) \<and>
   distinct (map (value_of ex_env) (get_all_nodes ex_env ex_g1)) \<and>
   card (value_of ex_env ` set (get_all_nodes ex_env ex_pattern) \<inter>
         value_of ex_env ` set (get_all_nodes ex_env ex_g1)) = 3 \<and>
   similarity (check_if_accept ex_env (ex_matcher []) ex_pattern ex_g1) = 3"
proof -
  have 1: "int (pat_size (ex_matcher [])) - int (length (get_all_nodes ex_env ex_g1)) = 0"
    by (simp add: ex_matcher_def fresh_matcher_def ex_leaves)
  have 2: "distinct (map (value_of ex_env) (get_all_nodes ex_env ex_pattern))"
    "distinct (map (value_of ex_env) (get_all_nodes ex_env ex_g1))"
    by (simp_all add: ex_leaves ex_values)
  have 3: "value_of ex_env ` set (get_all_nodes ex_env ex_pattern) \<inter>
         value_of ex_env ` set (get_all_nodes ex_env ex_g1) = {0, 1, 2}"
    by (auto simp add: ex_leaves ex_values)
  show ?thesis
    using check_if_accept_similarity [of ex_env "ex_matcher []" ex_g1 ex_pattern] ex_not_rejected 1 2
    by (simp add: 3)
qed

text \<open>
  The claim as stated fails where a node repeats: the pattern atom and the candidate
  are both the list \<open>(a, a)\<close>, for which \<open>find_starters\<close> counts two leaves. The code
  finds two common nodes and the similarity 2; the two sets of leaves share one atom.
\<close>

theorem check_if_accept_similarity_counterexample:
  "map_sum id pat_size (find_starters ex_env ex_twice 0 0 None (fresh_matcher [])) =
     Inr (pat_size ex_matcher2) \<and>
   \<not> rejected ex_env ex_matcher2 ex_twice \<and>
   similarity (check_if_accept ex_env ex_matcher2 ex_twice ex_twice) = 2 \<and>
   int (card (set (get_all_nodes ex_env ex_twice) \<inter> set (get_all_nodes ex_env ex_twice)))
     - \<bar>int (pat_size ex_matcher2) - int (length (get_all_nodes ex_env ex_twice))\<bar> = 1 \<and>
   int (card (set (get_all_nodes ex_env ex_twice) \<inter> set (get_all_nodes ex_env ex_twice)))
     - \<bar>int (pat_size ex_matcher2) - int (card (set (get_all_nodes ex_env ex_twice)))\<bar> = 0 \<and>
   similarity (check_if_accept ex_env ex_matcher2 ex_twice ex_twice) \<noteq>
     int (card (set (get_all_nodes ex_env ex_twice) \<inter> set (get_all_nodes ex_env ex_twice)))
     - \<bar>int (pat_size ex_matcher2) - int (length (get_all_nodes ex_env ex_twice))\<bar>"
proof -
  have r: "\<not> rejected ex_env ex_matcher2 ex_twice"
    by (simp add: rejected_def ex_matcher2_def fresh_matcher_def)
  have "candidate_score ex_env ex_matcher2 ex_twice ex_twice = 2"
    by (simp add: candidate_score_def estimate_similarity_def ex_leaves ex_matcher2_def
      fresh_matcher_def handle_less_def ex_values int_cast_def size_t_sub_def)
  then have "similarity (check_if_accept ex_env ex_matcher2 ex_twice ex_twice) = 2"
    using r by (simp add: check_if_accept_step)
  moreover have "map_sum id pat_size (find_starters ex_env ex_twice 0 0 None (fresh_matcher [])) =
     Inr (pat_size ex_matcher2)"
    by (simp add: ex_twice_def cn_def ex_matcher2_def fresh_matcher_def)
  ultimately show ?thesis
    using r by (simp add: ex_leaves ex_matcher2_def fresh_matcher_def)
qed

section \<open>The comparison callback\<close>

lemma clause_match_frame:
  "reject_list (snd (clause_match env st ph gh)) = reject_list st"
  "pat_size (snd (clause_match env st ph gh)) = pat_size st"
  "var_size (snd (clause_match env st ph gh)) = var_size st"
  "potential_starters (snd (clause_match env st ph gh)) = potential_starters st"
  by (simp_all add: clause_match_def Let_def check_if_accept_frame)

lemma clause_match_records:
  "(value_of env ph, value_of env gh) \<in> set (prev_compared (snd (clause_match env st ph gh)))"
  by (simp add: clause_match_def Let_def check_if_accept_frame)

lemma clause_match_seen:
  "(value_of env ph, value_of env gh) \<in> set (prev_compared st) \<Longrightarrow> clause_match env st ph gh = (True, st)"
  by (simp add: clause_match_def)

lemma clause_match_fresh:
  "(value_of env ph, value_of env gh) \<notin> set (prev_compared st) \<Longrightarrow>
   snd (clause_match env st ph gh) =
     (check_if_accept env st ph gh)\<lparr>prev_compared := prev_compared st @ [(value_of env ph, value_of env gh)]\<rparr>"
  by (simp add: clause_match_def Let_def check_if_accept_frame)

text \<open>
  C4. \<open>clause_match\<close> returns true; for a pair that was compared it changes nothing;
  and a second call with the same pair changes nothing after the first.
\<close>

theorem clause_match_idempotent:
  "fst (clause_match env st ph gh) = True \<and>
   ((value_of env ph, value_of env gh) \<in> set (prev_compared st) \<longrightarrow>
      snd (clause_match env st ph gh) = st) \<and>
   snd (clause_match env (snd (clause_match env st ph gh)) ph gh) = snd (clause_match env st ph gh)"
proof (intro conjI impI)
  show "fst (clause_match env st ph gh) = True"
    by (simp add: clause_match_def Let_def)
  show "snd (clause_match env st ph gh) = st"
    if "(value_of env ph, value_of env gh) \<in> set (prev_compared st)"
    using that by (simp add: clause_match_seen)
  show "snd (clause_match env (snd (clause_match env st ph gh)) ph gh) = snd (clause_match env st ph gh)"
    using clause_match_records [of env ph gh st] by (simp add: clause_match_seen)
qed

theorem clause_match_idempotent_witness:
  "(value_of ex_env ex_pattern, value_of ex_env ex_g2)
     \<in> set (prev_compared ((ex_matcher [])\<lparr>prev_compared := [(8, 10)]\<rparr>)) \<and>
   clause_match ex_env ((ex_matcher [])\<lparr>prev_compared := [(8, 10)]\<rparr>) ex_pattern ex_g2 =
     (True, (ex_matcher [])\<lparr>prev_compared := [(8, 10)]\<rparr>) \<and>
   solns (snd (clause_match ex_env (ex_matcher []) ex_pattern ex_g2)) = [ex_g2] \<and>
   snd (clause_match ex_env (snd (clause_match ex_env (ex_matcher []) ex_pattern ex_g2)) ex_pattern ex_g2) =
     snd (clause_match ex_env (ex_matcher []) ex_pattern ex_g2)"
proof -
  have 1: "(value_of ex_env ex_pattern, value_of ex_env ex_g2)
     \<in> set (prev_compared ((ex_matcher [])\<lparr>prev_compared := [(8, 10)]\<rparr>))"
    by (simp add: ex_values)
  have 2: "(value_of ex_env ex_pattern, value_of ex_env ex_g2) \<notin> set (prev_compared (ex_matcher []))"
    by (simp add: ex_matcher_def fresh_matcher_def)
  have m: "max_similarity (ex_matcher []) < 5"
    by (simp add: ex_matcher_def fresh_matcher_def)
  have 3: "solns (snd (clause_match ex_env (ex_matcher []) ex_pattern ex_g2)) = [ex_g2]"
    using ex_not_rejected [of ex_g2] m
    by (simp add: clause_match_fresh [OF 2] check_if_accept_step ex_scores)
  show ?thesis
    using clause_match_idempotent [of ex_env "(ex_matcher [])\<lparr>prev_compared := [(8, 10)]\<rparr>" ex_pattern ex_g2]
      clause_match_idempotent [of ex_env "ex_matcher []" ex_pattern ex_g2] 1 3
    by (simp add: prod_eq_iff)
qed

lemma rejected_prev_compared:
  "rejected env (st\<lparr>prev_compared := pc\<rparr>) g = rejected env st g"
  by (simp add: rejected_def)

lemma score_prev_compared:
  "candidate_score env (st\<lparr>prev_compared := pc\<rparr>) p g = candidate_score env st p g"
  by (simp add: candidate_score_def)

lemma check_if_accept_prev_compared:
  "check_if_accept env (st\<lparr>prev_compared := pc\<rparr>) p g = (check_if_accept env st p g)\<lparr>prev_compared := pc\<rparr>"
  by (simp add: check_if_accept_def Let_def)

text \<open>
  C10. The pairs are told apart by the pattern atom too: a candidate compared with
  two pattern atoms of different identifiers, neither pair compared before, not
  rejected, and scoring both times the same score, which is at least the best score,
  is in the solution set twice after the two calls, and its score is the best score.
\<close>

theorem same_candidate_twice:
  assumes "value_of env p1 \<noteq> value_of env p2"
    and "(value_of env p1, value_of env g) \<notin> set (prev_compared st)"
    and "(value_of env p2, value_of env g) \<notin> set (prev_compared st)"
    and "\<not> rejected env st g"
    and "candidate_score env st p2 g = candidate_score env st p1 g"
    and "max_similarity st \<le> candidate_score env st p1 g"
  shows "solns (snd (clause_match env (snd (clause_match env st p1 g)) p2 g)) =
           (if max_similarity st < candidate_score env st p1 g then [g, g] else solns st @ [g, g])
         \<and> max_similarity (snd (clause_match env (snd (clause_match env st p1 g)) p2 g)) =
             candidate_score env st p1 g
         \<and> 2 \<le> count_list (solns (snd (clause_match env (snd (clause_match env st p1 g)) p2 g))) g"
proof -
  define s1 where "s1 = check_if_accept env st p1 g"
  define c1 where "c1 = snd (clause_match env st p1 g)"
  have c1: "c1 = s1\<lparr>prev_compared := prev_compared st @ [(value_of env p1, value_of env g)]\<rparr>"
    using assms(2) by (simp add: c1_def s1_def clause_match_fresh)
  have fresh2: "(value_of env p2, value_of env g) \<notin> set (prev_compared c1)"
    using assms(1,3) by (simp add: c1)
  define s2 where "s2 = check_if_accept env s1 p2 g"
  have c2: "snd (clause_match env c1 p2 g) =
      s2\<lparr>prev_compared := prev_compared c1 @ [(value_of env p2, value_of env g)]\<rparr>"
    using fresh2 by (simp add: clause_match_fresh) (simp add: c1 s2_def check_if_accept_prev_compared)
  have m1: "max_similarity s1 = candidate_score env st p1 g"
    and l1: "solns s1 = (if max_similarity st < candidate_score env st p1 g then [g] else solns st @ [g])"
    using assms(4,6) by (auto simp add: s1_def check_if_accept_step)
  have r: "\<not> rejected env s1 g" using assms(4) by (simp add: s1_def rejected_frame)
  have sc: "candidate_score env s1 p2 g = candidate_score env st p1 g"
    using assms(5) by (simp add: s1_def score_frame)
  have m2: "max_similarity s2 = candidate_score env st p1 g"
    and l2: "solns s2 = solns s1 @ [g]"
    using r sc m1 by (simp_all add: s2_def check_if_accept_step)
  have sol: "solns (snd (clause_match env c1 p2 g)) =
           (if max_similarity st < candidate_score env st p1 g then [g, g] else solns st @ [g, g])"
    using l1 l2 by (simp add: c2)
  moreover have "max_similarity (snd (clause_match env c1 p2 g)) = candidate_score env st p1 g"
    using m2 by (simp add: c2)
  moreover have "2 \<le> count_list (solns (snd (clause_match env c1 p2 g))) g"
    unfolding sol by simp
  ultimately show ?thesis unfolding c1_def by blast
qed

theorem same_candidate_twice_witness:
  "value_of ex_env ex_pattern \<noteq> value_of ex_env ex_g3 \<and>
   prev_compared (ex_matcher []) = [] \<and>
   \<not> rejected ex_env (ex_matcher []) ex_g2 \<and>
   candidate_score ex_env (ex_matcher []) ex_pattern ex_g2 = 5 \<and>
   candidate_score ex_env (ex_matcher []) ex_g3 ex_g2 = 5 \<and>
   max_similarity (ex_matcher []) < 5 \<and>
   solns (snd (clause_match ex_env (snd (clause_match ex_env (ex_matcher []) ex_pattern ex_g2)) ex_g3 ex_g2))
     = [ex_g2, ex_g2] \<and>
   max_similarity (snd (clause_match ex_env (snd (clause_match ex_env (ex_matcher []) ex_pattern ex_g2)) ex_g3 ex_g2))
     = 5"
proof -
  have 1: "value_of ex_env ex_pattern \<noteq> value_of ex_env ex_g3" by (simp add: ex_values)
  have 2: "prev_compared (ex_matcher []) = []" "max_similarity (ex_matcher []) < 5"
    by (simp_all add: ex_matcher_def fresh_matcher_def)
  show ?thesis
    using same_candidate_twice [of ex_env ex_pattern ex_g3 ex_g2 "ex_matcher []"] 1 2 ex_not_rejected [of ex_g2]
    by (simp add: ex_scores)
qed

section \<open>Starter discovery\<close>

lemma counted_nil: "counted st st []"
  by (simp add: counted_def)

lemma counted_trans: "counted st st1 l1 \<Longrightarrow> counted st1 st2 l2 \<Longrightarrow> counted st st2 (l1 @ l2)"
  by (auto simp: counted_def)

lemma unquote_ok:
  assumes "quotes_unary h"
  shows "\<exists>h'. (if getType h = QUOTE_LINK then getOutgoingAtom h 0 else Inr h) = Inr h' \<and>
              quotes_unary h' \<and> leaf_nodes h' = leaf_nodes h"
proof (cases h)
  case (Node t n)
  with assms show ?thesis by simp
next
  case (Link t out)
  show ?thesis
  proof (cases "t = QUOTE_LINK")
    case True
    with assms Link obtain q where "out = [q]" by (cases out) auto
    with assms Link True show ?thesis by (simp add: getOutgoingAtom_def outgoing_at_def)
  next
    case False
    with assms Link show ?thesis by simp
  qed
qed

lemma find_starters_counted:
  "quotes_unary hp \<longrightarrow> (\<exists>st'. find_starters env hp dp ci tm st = Inr st' \<and> counted st st' (leaf_nodes hp))"
  "list_all quotes_unary hs \<longrightarrow>
     (\<exists>st'. find_starters_loop env hs hp' dp' ci' st2 = Inr st' \<and> counted st2 st' (concat (map leaf_nodes hs)))"
proof (induction env hp dp ci tm st and env hs hp' dp' ci' st2 rule: find_starters_find_starters_loop.induct)
  case (1 env t out dp ci tm st)
  then show ?case by auto
next
  case (2 env t n dp ci tm st)
  then show ?case by (auto simp: counted_def is_starter_node_def Let_def)
next
  case (3 env hp dp ci st)
  then show ?case by (simp add: counted_nil)
next
  case (4 env h hs hp dp ci st)
  show ?case
  proof
    assume a: "list_all quotes_unary (h # hs)"
    then obtain h' where h': "(if getType h = QUOTE_LINK then getOutgoingAtom h 0 else Inr h) = Inr h'"
      "quotes_unary h'" "leaf_nodes h' = leaf_nodes h"
      using unquote_ok [of h] by auto
    from 4(1) [OF h'(1)] h'(2) obtain st1 where
      st1: "find_starters env h' (dp + 1) ci (Some hp) st = Inr st1" "counted st st1 (leaf_nodes h')"
      by auto
    from 4(2) [OF h'(1) st1(1)] a obtain st2 where
      st2: "find_starters_loop env hs hp dp ci st1 = Inr st2" "counted st1 st2 (concat (map leaf_nodes hs))"
      by auto
    have "find_starters_loop env (h # hs) hp dp ci st = Inr st2"
      using h'(1) st1(1) st2(1) by simp
    moreover have "counted st st2 (concat (map leaf_nodes (h # hs)))"
      using counted_trans [OF st1(2) st2(2)] h'(3) by simp
    ultimately show "\<exists>st'. find_starters_loop env (h # hs) hp dp ci st = Inr st' \<and>
        counted st st' (concat (map leaf_nodes (h # hs)))"
      by blast
  qed
qed

lemma appended_refl: "appended st st P"
  by (simp add: appended_def)

lemma appended_trans: "appended st st1 P \<Longrightarrow> appended st1 st2 P \<Longrightarrow> appended st st2 P"
  by (auto simp: appended_def)

lemma appended_mono: "appended st st1 P \<Longrightarrow> (\<And>s. P s \<Longrightarrow> Q s) \<Longrightarrow> appended st st1 Q"
  by (auto simp: appended_def)

lemma unquote_leaves:
  assumes "(if getType h = QUOTE_LINK then getOutgoingAtom h 0 else Inr h) = Inr h'"
  shows "set (leaf_nodes h') \<subseteq> set (leaf_nodes h)"
proof (cases h)
  case (Node t n)
  with assms show ?thesis by (auto simp: getOutgoingAtom_def outgoing_at_def split: if_splits)
next
  case (Link t out)
  with assms show ?thesis
    by (cases out) (auto simp: getOutgoingAtom_def outgoing_at_def split: if_splits)
qed

text \<open>
  Every starter \<open>find_starters\<close> appends is a starter node among the leaves, of the
  clause it was called for; it has a term unless it is the atom the call was made
  for, a node, and the call was made with no term.
\<close>

lemma find_starters_appended:
  "\<forall>st'. find_starters env hp dp ci tm st = Inr st' \<longrightarrow>
      appended st st' (\<lambda>s. is_starter_node (handle s) \<and> handle s \<in> set (leaf_nodes hp) \<and>
                           clause_idx s = ci \<and> (term_h s = None \<longrightarrow> tm = None \<and> \<not> is_link hp))"
  "\<forall>st'. find_starters_loop env hs hp' dp' ci' st2 = Inr st' \<longrightarrow>
      appended st2 st' (starter_in (concat (map leaf_nodes hs)) ci')"
proof (induction env hp dp ci tm st and env hs hp' dp' ci' st2 rule: find_starters_find_starters_loop.induct)
  case (1 env t out dp ci tm st)
  show ?case
  proof (intro allI impI)
    fix st'
    assume "find_starters env (Link t out) dp ci tm st = Inr st'"
    then have "appended st st' (starter_in (concat (map leaf_nodes out)) ci)"
      using 1 by simp
    then show "appended st st' (\<lambda>s. is_starter_node (handle s) \<and> handle s \<in> set (leaf_nodes (Link t out)) \<and>
                           clause_idx s = ci \<and> (term_h s = None \<longrightarrow> tm = None \<and> \<not> is_link (Link t out)))"
      by (rule appended_mono) (simp add: starter_in_def)
  qed
next
  case (2 env t n dp ci tm st)
  then show ?case by (auto simp: appended_def is_starter_node_def Let_def)
next
  case (3 env hp dp ci st)
  then show ?case by (simp add: appended_refl)
next
  case (4 env h hs hp dp ci st)
  show ?case
  proof (intro allI impI)
    fix st'
    assume r: "find_starters_loop env (h # hs) hp dp ci st = Inr st'"
    then obtain h' where h': "(if getType h = QUOTE_LINK then getOutgoingAtom h 0 else Inr h) = Inr h'"
      by (cases "if getType h = QUOTE_LINK then getOutgoingAtom h 0 else Inr h") auto
    with r obtain st1 where st1: "find_starters env h' (dp + 1) ci (Some hp) st = Inr st1"
      by (cases "find_starters env h' (dp + 1) ci (Some hp) st") auto
    with r h' have st2: "find_starters_loop env hs hp dp ci st1 = Inr st'" by simp
    have a0: "appended st st1 (\<lambda>s :: Starter. is_starter_node (handle s) \<and> handle s \<in> set (leaf_nodes h') \<and>
                           clause_idx s = ci \<and> (term_h s = None \<longrightarrow> Some hp = None \<and> \<not> is_link h'))"
      by (rule 4(1) [OF h', rule_format, OF st1])
    have a: "appended st st1 (starter_in (concat (map leaf_nodes (h # hs))) ci)"
    proof (rule appended_mono [OF a0])
      fix s :: Starter
      assume "is_starter_node (handle s) \<and> handle s \<in> set (leaf_nodes h') \<and>
                clause_idx s = ci \<and> (term_h s = None \<longrightarrow> Some hp = None \<and> \<not> is_link h')"
      then show "starter_in (concat (map leaf_nodes (h # hs))) ci s"
        using unquote_leaves [OF h'] by (auto simp: starter_in_def)
    qed
    have "appended st1 st' (starter_in (concat (map leaf_nodes hs)) ci)"
      using 4(2) [OF h' st1] st2 by blast
    then have b: "appended st1 st' (starter_in (concat (map leaf_nodes (h # hs))) ci)"
      by (rule appended_mono) (auto simp: starter_in_def)
    show "appended st st' (starter_in (concat (map leaf_nodes (h # hs))) ci)"
      using a b by (rule appended_trans)
  qed
qed

text \<open>
  C7. Whatever \<open>find_starters\<close> records is a node that is no variable and has no
  \<open>@\<close> in its name. On a pattern whose quoting links have one member each it returns,
  having counted every leaf in \<open>pat_size\<close> and every variable leaf in \<open>var_size\<close>; and
  on such a pattern with leaves that are all variables it records no starter and
  raises both counters.
\<close>

theorem find_starters_counts:
  "(\<forall>st'. find_starters env hp dp ci tm st = Inr st' \<longrightarrow>
      (\<exists>new. potential_starters st' = potential_starters st @ new \<and>
         (\<forall>s \<in> set new. \<exists>t n. handle s = Node t n \<and> t \<noteq> VARIABLE_NODE \<and> CHR ''@'' \<notin> set n)))
   \<and> (quotes_unary hp \<longrightarrow>
        (\<exists>st'. find_starters env hp dp ci tm st = Inr st' \<and>
           pat_size st' = pat_size st + length (leaf_nodes hp) \<and>
           var_size st' = var_size st + length (filter (\<lambda>a. getType a = VARIABLE_NODE) (leaf_nodes hp))))
   \<and> (quotes_unary hp \<and> leaf_nodes hp \<noteq> [] \<and> (\<forall>a \<in> set (leaf_nodes hp). getType a = VARIABLE_NODE) \<longrightarrow>
        (\<exists>st'. find_starters env hp dp ci tm st = Inr st' \<and>
           potential_starters st' = potential_starters st \<and>
           pat_size st < pat_size st' \<and> var_size st < var_size st'))"
proof (intro conjI allI impI)
  fix st'
  assume "find_starters env hp dp ci tm st = Inr st'"
  then have "appended st st' (\<lambda>s. is_starter_node (handle s) \<and> handle s \<in> set (leaf_nodes hp) \<and>
                           clause_idx s = ci \<and> (term_h s = None \<longrightarrow> tm = None \<and> \<not> is_link hp))"
    using find_starters_appended(1) by blast
  then show "\<exists>new. potential_starters st' = potential_starters st @ new \<and>
         (\<forall>s \<in> set new. \<exists>t n. handle s = Node t n \<and> t \<noteq> VARIABLE_NODE \<and> CHR ''@'' \<notin> set n)"
    unfolding appended_def is_starter_node_def by (fastforce split: atom.splits)
next
  assume "quotes_unary hp"
  then obtain st' where "find_starters env hp dp ci tm st = Inr st'" "counted st st' (leaf_nodes hp)"
    using find_starters_counted(1) by blast
  then show "\<exists>st'. find_starters env hp dp ci tm st = Inr st' \<and>
           pat_size st' = pat_size st + length (leaf_nodes hp) \<and>
           var_size st' = var_size st + length (filter (\<lambda>a. getType a = VARIABLE_NODE) (leaf_nodes hp))"
    by (auto simp: counted_def)
next
  assume a: "quotes_unary hp \<and> leaf_nodes hp \<noteq> [] \<and> (\<forall>a \<in> set (leaf_nodes hp). getType a = VARIABLE_NODE)"
  then obtain st' where s: "find_starters env hp dp ci tm st = Inr st'" "counted st st' (leaf_nodes hp)"
    using find_starters_counted(1) by blast
  have f1: "filter (\<lambda>a. getType a = VARIABLE_NODE) (leaf_nodes hp) = leaf_nodes hp"
    using a by simp
  have f2: "filter is_starter_node (leaf_nodes hp) = []"
    using a by (auto simp: is_starter_node_def filter_empty_conv split: atom.splits)
  have "potential_starters st' = potential_starters st"
    using s(2) f2 by (auto simp: counted_def)
  moreover have "pat_size st < pat_size st'" "var_size st < var_size st'"
    using s(2) f1 a by (auto simp: counted_def)
  ultimately show "\<exists>st'. find_starters env hp dp ci tm st = Inr st' \<and>
           potential_starters st' = potential_starters st \<and>
           pat_size st < pat_size st' \<and> var_size st < var_size st'"
    using s(1) by blast
qed

theorem find_starters_counts_witness:
  "quotes_unary ex_var_clause \<and>
   leaf_nodes ex_var_clause = [vn ''$x'', vn ''$y''] \<and>
   find_starters ex_corpus_env ex_var_clause 0 0 None (fresh_matcher []) =
     Inr ((fresh_matcher [])\<lparr>pat_size := 2, var_size := 2\<rparr>) \<and>
   quotes_unary ex_inst_clause \<and>
   leaf_nodes ex_inst_clause = [cn ''pizza@42'', vn ''$y'', cn ''pasta''] \<and>
   (\<exists>st'. find_starters ex_corpus_env ex_inst_clause 0 0 None (fresh_matcher []) = Inr st' \<and>
      map handle (potential_starters st') = [cn ''pasta''] \<and> pat_size st' = 3 \<and> var_size st' = 1)"
proof -
  have q: "quotes_unary ex_var_clause" "quotes_unary ex_inst_clause"
    by (simp_all add: ex_var_clause_def ex_inst_clause_def vn_def cn_def)
  have l: "leaf_nodes ex_var_clause = [vn ''$x'', vn ''$y'']"
    "leaf_nodes ex_inst_clause = [cn ''pizza@42'', vn ''$y'', cn ''pasta'']"
    by (simp_all add: ex_var_clause_def ex_inst_clause_def vn_def cn_def)
  have v: "\<forall>a \<in> set (leaf_nodes ex_var_clause). getType a = VARIABLE_NODE"
    by (simp add: l) (simp add: vn_def)
  have e1: "find_starters ex_corpus_env ex_var_clause 0 0 None (fresh_matcher []) =
     Inr ((fresh_matcher [])\<lparr>pat_size := 2, var_size := 2\<rparr>)"
    by (simp add: ex_var_clause_def vn_def getOutgoingAtom_def outgoing_at_def fresh_matcher_def)
  have e2: "\<exists>st'. find_starters ex_corpus_env ex_inst_clause 0 0 None (fresh_matcher []) = Inr st' \<and>
      map handle (potential_starters st') = [cn ''pasta''] \<and> pat_size st' = 3 \<and> var_size st' = 1"
    by (simp add: ex_inst_clause_def vn_def cn_def getOutgoingAtom_def outgoing_at_def fresh_matcher_def)
  show ?thesis
    using find_starters_counts [of ex_corpus_env ex_var_clause 0 0 None "fresh_matcher []"]
      find_starters_counts [of ex_corpus_env ex_inst_clause 0 0 None "fresh_matcher []"] q l v e1 e2
    by simp
qed

section \<open>Ranking the starters\<close>

lemma sorted_by_uuid: "sorted (map uuid (std_sort sort_by_uuid ps))"
proof -
  have "sort_by_uuid = (\<lambda>a b. uuid a < uuid b)"
    by (intro ext) (simp add: sort_by_uuid_def)
  then show ?thesis using sorted_std_sort_key [of uuid ps] by simp
qed

lemma set_std_unique: "set (std_unique eq xs) \<subseteq> set xs"
  by (induction eq xs rule: std_unique.induct) auto

lemma keys_std_unique:
  "set (map key (std_unique (\<lambda>a b. key a = key b) xs)) = set (map key xs)"
  by (induction "\<lambda>a b. key a = key b" xs rule: std_unique.induct) auto

lemma distinct_std_unique:
  fixes key :: "'a \<Rightarrow> nat"
  shows "sorted (map key xs) \<Longrightarrow> distinct (map key (std_unique (\<lambda>a b. key a = key b) xs))"
proof (induction "\<lambda>a b. key a = key b" xs rule: std_unique.induct)
  case 1
  then show ?case by simp
next
  case (2 x)
  then show ?case by simp
next
  case (3 x y ys)
  show ?case
  proof (cases "key x = key y")
    case True
    with 3 show ?thesis by simp
  next
    case False
    have "key x \<notin> set (map key (y # ys))" using 3(3) False by auto
    then have "key x \<notin> set (map key (std_unique (\<lambda>a b. key a = key b) (y # ys)))"
      using keys_std_unique [of key "y # ys"] by simp
    with False 3 show ?thesis by simp
  qed
qed

lemma sorted_by_wd:
  "sorted_wrt (\<lambda>a b. \<not> sort_by_wd b a) (std_sort sort_by_wd ps)"
  by (rule sorted_wrt_std_sort) (auto simp: sort_by_wd_def split: if_splits)

lemma not_sort_by_wd:
  "(\<not> sort_by_wd b a) = (width a < width b \<or> (width a = width b \<and> depth b \<le> depth a))"
  by (auto simp: sort_by_wd_def)

lemma set_rank_starters: "set (rank_starters ps) \<subseteq> set ps"
  using set_std_unique [of check_uniqueness "std_sort sort_by_uuid ps"]
  by (simp add: rank_starters_def set_std_sort)

lemma std_sort_is_sort_of:
  assumes tr: "\<And>a b c. \<not> lt b a \<Longrightarrow> \<not> lt c b \<Longrightarrow> \<not> lt c a"
    and asym: "\<And>a b. lt a b \<Longrightarrow> \<not> lt b a"
  shows "is_sort_of lt xs (std_sort lt xs)"
proof -
  have "sorted_wrt (\<lambda>a b. \<not> lt b a) (std_sort lt xs)"
    by (rule sorted_wrt_std_sort [OF tr asym])
  then show ?thesis by (simp add: is_sort_of_def mset_std_sort)
qed

lemma rank_starters_is_ranking: "is_ranking ps (rank_starters ps)"
proof -
  have "is_sort_of sort_by_uuid ps (std_sort sort_by_uuid ps)"
    by (rule std_sort_is_sort_of) (auto simp: sort_by_uuid_def)
  moreover have "is_sort_of sort_by_wd (std_unique check_uniqueness (std_sort sort_by_uuid ps))
      (std_sort sort_by_wd (std_unique check_uniqueness (std_sort sort_by_uuid ps)))"
    by (rule std_sort_is_sort_of) (auto simp: sort_by_wd_def split: if_splits)
  ultimately show ?thesis unfolding is_ranking_def rank_starters_def by blast
qed

lemma is_ranking_properties:
  assumes "is_ranking ps zs"
  shows "distinct (map uuid zs)"
    and "set (map uuid zs) = set (map uuid ps)"
    and "set zs \<subseteq> set ps"
    and "sorted_wrt (\<lambda>a b. width a < width b \<or> (width a = width b \<and> depth b \<le> depth a)) zs"
proof -
  from assms obtain ys where ys: "mset ys = mset ps" "sorted_wrt (\<lambda>a b. \<not> sort_by_uuid b a) ys"
    and zs: "mset zs = mset (std_unique check_uniqueness ys)" "sorted_wrt (\<lambda>a b. \<not> sort_by_wd b a) zs"
    unfolding is_ranking_def is_sort_of_def by blast
  define us where "us = std_unique check_uniqueness ys"
  have cu: "check_uniqueness = (\<lambda>a b. uuid a = uuid b)"
    by (intro ext) (simp add: check_uniqueness_def)
  have sy: "sorted (map uuid ys)"
    using ys(2) by (simp add: sorted_map sort_by_uuid_def not_less)
  have eqs: "set ys = set ps" using ys(1) by (metis set_mset_mset)
  have d: "distinct (map uuid us)"
    unfolding us_def cu using sy by (rule distinct_std_unique)
  have k: "set (map uuid us) = set (map uuid ps)"
    unfolding us_def cu keys_std_unique using eqs by simp
  have s: "set us \<subseteq> set ps"
    unfolding us_def using set_std_unique [of check_uniqueness ys] eqs by simp
  have m: "mset zs = mset us" using zs(1) by (simp add: us_def)
  then have sz: "set zs = set us" by (metis set_mset_mset)
  have "mset (map uuid zs) = mset (map uuid us)"
    using m by (metis mset_map)
  then show "distinct (map uuid zs)"
    using d by (metis mset_eq_imp_distinct_iff)
  show "set (map uuid zs) = set (map uuid ps)"
    using k sz by simp
  show "set zs \<subseteq> set ps"
    using s sz by simp
  show "sorted_wrt (\<lambda>a b. width a < width b \<or> (width a = width b \<and> depth b \<le> depth a)) zs"
    using zs(2) by (simp add: not_sort_by_wd)
qed

text \<open>
  C6. The list the model ranks is one the code may leave, and every list the code
  may leave for the starters found has one starter for every identifier found, each
  one of those found, and is in ascending order of width, starters of one width in
  descending order of depth; so its first starter has the least width and, among
  the starters of that width, the greatest depth.
\<close>

theorem rank_starters_unique_sorted:
  "is_ranking ps (rank_starters ps) \<and>
   (\<forall>zs. is_ranking ps zs \<longrightarrow>
      distinct (map uuid zs) \<and>
      set (map uuid zs) = set (map uuid ps) \<and>
      set zs \<subseteq> set ps \<and>
      sorted_wrt (\<lambda>a b. width a < width b \<or> (width a = width b \<and> depth b \<le> depth a)) zs \<and>
      (zs \<noteq> [] \<longrightarrow>
         (\<forall>s \<in> set zs. width (hd zs) \<le> width s \<and>
                            (width s = width (hd zs) \<longrightarrow> depth s \<le> depth (hd zs)))))"
proof (intro conjI allI impI)
  show "is_ranking ps (rank_starters ps)" by (rule rank_starters_is_ranking)
next
  fix zs assume r: "is_ranking ps zs"
  show "distinct (map uuid zs)" by (rule is_ranking_properties(1) [OF r])
  show "set (map uuid zs) = set (map uuid ps)" by (rule is_ranking_properties(2) [OF r])
  show "set zs \<subseteq> set ps" by (rule is_ranking_properties(3) [OF r])
  show "sorted_wrt (\<lambda>a b. width a < width b \<or> (width a = width b \<and> depth b \<le> depth a)) zs"
    by (rule is_ranking_properties(4) [OF r])
next
  fix zs assume r: "is_ranking ps zs" and ne: "zs \<noteq> []"
  have 4: "sorted_wrt (\<lambda>a b. width a < width b \<or> (width a = width b \<and> depth b \<le> depth a)) zs"
    by (rule is_ranking_properties(4) [OF r])
  show "\<forall>s \<in> set zs. width (hd zs) \<le> width s \<and>
                            (width s = width (hd zs) \<longrightarrow> depth s \<le> depth (hd zs))"
  proof (cases zs)
    case Nil
    with ne show ?thesis by simp
  next
    case (Cons x xs)
    with 4 show ?thesis by auto
  qed
qed

theorem rank_starters_unique_sorted_witness:
  "map uuid ex_starters = [3, 1, 3, 2] \<and>
   is_ranking ex_starters (rank_starters ex_starters) \<and>
   map uuid (rank_starters ex_starters) = [2, 1, 3] \<and>
   map width (rank_starters ex_starters) = [1, 2, 2] \<and>
   map depth (rank_starters ex_starters) = [1, 2, 1] \<and>
   rank_starters ex_starters \<noteq> [] \<and>
   distinct (map uuid (rank_starters ex_starters)) \<and>
   width (hd (rank_starters ex_starters)) = 1"
proof -
  have r: "rank_starters ex_starters =
     [\<lparr>uuid = 2, handle = cn ''pasta'', term_h = Some (Link LIST_LINK [cn ''Ann'', cn ''pasta'']),
       clause_idx = 1, width = 1, depth = 1\<rparr>,
      \<lparr>uuid = 1, handle = cn ''pizza'', term_h = Some (Link LIST_LINK [cn ''Ann'', cn ''pizza'']),
       clause_idx = 0, width = 2, depth = 2\<rparr>,
      \<lparr>uuid = 3, handle = cn ''Ann'', term_h = Some (Link LIST_LINK [cn ''Ann'', cn ''pizza'']),
       clause_idx = 0, width = 2, depth = 1\<rparr>]"
    by (simp add: rank_starters_def ex_starters_def sort_by_uuid_def check_uniqueness_def sort_by_wd_def)
  have u: "map uuid ex_starters = [3, 1, 3, 2]" by (simp add: ex_starters_def)
  note t = rank_starters_unique_sorted [of ex_starters]
  have i: "is_ranking ex_starters (rank_starters ex_starters)"
    by (rule t [THEN conjunct1])
  have d: "distinct (map uuid (rank_starters ex_starters))"
    using t [THEN conjunct2, rule_format, OF i] by (rule conjunct1)
  have v: "map uuid (rank_starters ex_starters) = [2, 1, 3]"
    "map width (rank_starters ex_starters) = [1, 2, 2]"
    "map depth (rank_starters ex_starters) = [1, 2, 1]"
    "rank_starters ex_starters \<noteq> []"
    "width (hd (rank_starters ex_starters)) = 1"
    by (simp_all add: r)
  show ?thesis
    by (intro conjI u i d v)
qed

section \<open>The searches\<close>

lemma explore_starter_frame:
  assumes "\<forall>root tm h s. potential_starters (pme root tm h s) = potential_starters s"
  shows "potential_starters (explore_starter env pme root s st) = potential_starters st"
proof -
  have "potential_starters (foldl (\<lambda>st' h. pme root tm h st') st hs) = potential_starters st" for hs tm
    using assms by (induction hs arbitrary: st) simp_all
  then show ?thesis by (simp add: explore_starter_def)
qed

lemma search_loop_from:
  "\<forall>root tm h s. potential_starters (pme root tm h s) = potential_starters s \<Longrightarrow>
     search_cnt \<le> length (potential_starters st) \<Longrightarrow>
     \<forall>s \<in> set (potential_starters st). clause_idx s < length clauses \<and> term_h s \<noteq> None \<Longrightarrow>
     search_loop env pme clauses search_cnt st =
       Inr (max search_cnt (min (MAX_SEARCHES env) (length (potential_starters st))),
            foldl (\<lambda>st' s. explore_starter env pme (clauses ! clause_idx s) s st') st
              (take (MAX_SEARCHES env - search_cnt) (drop search_cnt (potential_starters st))))"
proof (induction env pme clauses search_cnt st rule: search_loop.induct)
  case (1 env pme clauses search_cnt st)
  let ?ps = "potential_starters st"
  show ?case
  proof (cases "MAX_SEARCHES env > search_cnt")
    case False
    then show ?thesis by (simp add: search_loop.simps [of env pme clauses search_cnt st])
  next
    case True
    show ?thesis
    proof (cases "length ?ps = search_cnt")
      case e: True
      then show ?thesis using True by (simp add: search_loop.simps [of env pme clauses search_cnt st])
    next
      case ne: False
      note frame = 1(2)
      with 1(3) ne have lt: "search_cnt < length ?ps" by simp
      define s where "s = ?ps ! search_cnt"
      have s_in: "s \<in> set ?ps" using lt by (simp add: s_def)
      then have ci: "clause_idx s < length clauses" using 1(4) by blast
      from s_in obtain starter_term where tm: "term_h s = Some starter_term" using 1(4) by blast
      define st1 where "st1 = explore_starter env pme (clauses ! clause_idx s) s st"
      have ps1: "potential_starters st1 = ?ps"
        by (simp add: st1_def explore_starter_frame [OF frame])
      have a1: "at_index ?ps search_cnt = Inr s" using lt by (simp add: at_index_def s_def)
      have a2: "at_index clauses (clause_idx s) = Inr (clauses ! clause_idx s)"
        using ci by (simp add: at_index_def)
      have ih: "search_loop env pme clauses (search_cnt + 1) st1 =
         Inr (max (search_cnt + 1) (min (MAX_SEARCHES env) (length ?ps)),
            foldl (\<lambda>st' s. explore_starter env pme (clauses ! clause_idx s) s st') st1
              (take (MAX_SEARCHES env - (search_cnt + 1)) (drop (search_cnt + 1) ?ps)))"
        using 1(1) [OF True ne a1 a2 tm frame] lt 1(4) ps1 by (simp add: st1_def)
      have dr: "drop search_cnt ?ps = s # drop (search_cnt + 1) ?ps"
        using lt by (simp add: s_def Cons_nth_drop_Suc)
      have tk: "take (MAX_SEARCHES env - search_cnt) (drop search_cnt ?ps) =
          s # take (MAX_SEARCHES env - (search_cnt + 1)) (drop (search_cnt + 1) ?ps)"
        using True by (simp add: dr take_Cons')
      have mx: "max (search_cnt + 1) (min (MAX_SEARCHES env) (length ?ps)) =
          max search_cnt (min (MAX_SEARCHES env) (length ?ps))"
        using True lt by simp
      have step: "search_loop env pme clauses search_cnt st = search_loop env pme clauses (search_cnt + 1) st1"
        using True ne a1 a2 tm by (simp add: search_loop.simps [of env pme clauses search_cnt st] st1_def)
      have "foldl (\<lambda>st' s. explore_starter env pme (clauses ! clause_idx s) s st') st
              (take (MAX_SEARCHES env - search_cnt) (drop search_cnt ?ps)) =
            foldl (\<lambda>st' s. explore_starter env pme (clauses ! clause_idx s) s st') st1
              (take (MAX_SEARCHES env - (search_cnt + 1)) (drop (search_cnt + 1) ?ps))"
        by (simp only: tk foldl_Cons st1_def)
      then show ?thesis
        by (simp only: step ih mx)
    qed
  qed
qed

lemma clause_loop_appended:
  "clause_loop env pat cs i st = Inr st' \<Longrightarrow> list_all is_link cs \<Longrightarrow>
   appended st st' (\<lambda>s. clause_idx s < i + length cs \<and> term_h s \<noteq> None)"
proof (induction cs arbitrary: i st)
  case Nil
  then show ?case by (simp add: appended_refl)
next
  case (Cons c cs)
  show ?case
  proof (cases "list_ex (handle_eq env c) (evaluatable_holders pat)")
    case True
    with Cons.prems have "clause_loop env pat cs (i + 1) st = Inr st'" "list_all is_link cs" by simp_all
    then have "appended st st' (\<lambda>s. clause_idx s < i + 1 + length cs \<and> term_h s \<noteq> None)"
      by (rule Cons.IH)
    then show ?thesis by (rule appended_mono) simp
  next
    case False
    with Cons.prems obtain st1 where
      st1: "find_starters env c 0 i None st = Inr st1" "clause_loop env pat cs (i + 1) st1 = Inr st'"
      by (cases "find_starters env c 0 i None st") auto
    have a0: "appended st st1 (\<lambda>s :: Starter. is_starter_node (handle s) \<and> handle s \<in> set (leaf_nodes c) \<and>
                           clause_idx s = i \<and> (term_h s = None \<longrightarrow> (None :: Handle) = None \<and> \<not> is_link c))"
      by (rule find_starters_appended(1) [rule_format, OF st1(1)])
    have a: "appended st st1 (\<lambda>s. clause_idx s < i + length (c # cs) \<and> term_h s \<noteq> None)"
    proof (rule appended_mono [OF a0])
      fix s :: Starter
      assume "is_starter_node (handle s) \<and> handle s \<in> set (leaf_nodes c) \<and>
                clause_idx s = i \<and> (term_h s = None \<longrightarrow> (None :: Handle) = None \<and> \<not> is_link c)"
      then show "clause_idx s < i + length (c # cs) \<and> term_h s \<noteq> None"
        using Cons.prems(2) by auto
    qed
    have "appended st1 st' (\<lambda>s. clause_idx s < i + 1 + length cs \<and> term_h s \<noteq> None)"
      using st1(2) Cons.prems(2) by (intro Cons.IH) simp_all
    then have b: "appended st1 st' (\<lambda>s. clause_idx s < i + length (c # cs) \<and> term_h s \<noteq> None)"
      by (rule appended_mono) simp
    show ?thesis
      using a b by (rule appended_trans)
  qed
qed

text \<open>
  Where every clause is a link, every starter is found under a term. Then, with an
  engine that leaves the list of starters alone, the loop started on any list the
  two sorts may leave ends with \<open>search_cnt\<close> the lesser of \<open>MAX_SEARCHES\<close> and the number
  of ranked starters, having run one search for each of the first \<open>MAX_SEARCHES\<close>
  ranked starters, in their order.
\<close>

lemma search_loop_consumes_ranked:
  assumes "\<forall>root tm h s. potential_starters (pme root tm h s) = potential_starters s"
    and "\<forall>s \<in> set (potential_starters st). clause_idx s < length (mandatory pat) \<and> term_h s \<noteq> None"
    and "list_all is_link (mandatory pat)"
    and "clause_loop env pat (mandatory pat) 0 st = Inr st1"
    and "is_ranking (potential_starters st1) ranked"
  shows "search_loop env pme (mandatory pat) 0 (st1\<lparr>potential_starters := ranked\<rparr>) =
           Inr (min (MAX_SEARCHES env) (length ranked),
                foldl (\<lambda>st' s. explore_starter env pme (mandatory pat ! clause_idx s) s st')
                   (st1\<lparr>potential_starters := ranked\<rparr>) (take (MAX_SEARCHES env) ranked))"
proof -
  obtain new where new: "potential_starters st1 = potential_starters st @ new"
    "\<forall>s \<in> set new. clause_idx s < 0 + length (mandatory pat) \<and> term_h s \<noteq> None"
    using clause_loop_appended [OF assms(4,3)] unfolding appended_def by blast
  have "\<forall>s \<in> set (potential_starters st1). clause_idx s < length (mandatory pat) \<and> term_h s \<noteq> None"
    using new assms(2) by auto
  then have v: "\<forall>s \<in> set (potential_starters (st1\<lparr>potential_starters := ranked\<rparr>)).
      clause_idx s < length (mandatory pat) \<and> term_h s \<noteq> None"
    using is_ranking_properties(3) [OF assms(5)] by auto
  show ?thesis
    using search_loop_from [OF assms(1) _ v, of 0 env] by simp
qed

lemma initiate_search_on_links:
  assumes "\<forall>root tm h s. potential_starters (pme root tm h s) = potential_starters s"
    and "\<forall>s \<in> set (potential_starters st). clause_idx s < length (mandatory pat) \<and> term_h s \<noteq> None"
    and "list_all is_link (mandatory pat)"
    and "clause_loop env pat (mandatory pat) 0 st = Inr st1"
    and "ranked = rank_starters (potential_starters st1)"
    and "final = foldl (\<lambda>st' s. explore_starter env pme (mandatory pat ! clause_idx s) s st')
                   (st1\<lparr>potential_starters := ranked\<rparr>) (take (MAX_SEARCHES env) ranked)"
  shows "search_loop env pme (mandatory pat) 0 (st1\<lparr>potential_starters := ranked\<rparr>) =
           Inr (min (MAX_SEARCHES env) (length ranked), final)
         \<and> initiate_search env pme pat st = Inr (solns final \<noteq> [], final)
         \<and> (MAX_SEARCHES env < length ranked \<longrightarrow>
               length (take (MAX_SEARCHES env) ranked) = MAX_SEARCHES env)
         \<and> (length ranked \<le> MAX_SEARCHES env \<longrightarrow> take (MAX_SEARCHES env) ranked = ranked)"
proof -
  have r: "is_ranking (potential_starters st1) ranked"
    unfolding assms(5) by (rule rank_starters_is_ranking)
  have l: "search_loop env pme (mandatory pat) 0 (st1\<lparr>potential_starters := ranked\<rparr>) =
           Inr (min (MAX_SEARCHES env) (length ranked), final)"
    unfolding assms(6) by (rule search_loop_consumes_ranked [OF assms(1,2,3,4) r])
  moreover have "initiate_search env pme pat st = Inr (solns final \<noteq> [], final)"
    using l assms(4,5) by (simp add: initiate_search_def)
  ultimately show ?thesis by simp
qed

lemma report_pme_frame:
  "potential_starters (report_pme env root tm h s) = potential_starters s"
proof -
  have "potential_starters (foldl (\<lambda>st' g. snd (clause_match env st' root g)) st gs) = potential_starters st"
    for gs st
    by (induction gs arbitrary: st) (simp_all add: clause_match_frame)
  then show ?thesis by (simp add: report_pme_def)
qed

lemma ex_corpus_values:
  "value_of ex_corpus_env (Node PREDICATE_NODE ''likes'') = 0"
  "value_of ex_corpus_env (cn ''pizza'') = 1"
  "value_of ex_corpus_env (cn ''pasta'') = 2"
  "value_of ex_corpus_env (cn ''Ann'') = 3"
  "value_of ex_corpus_env (cn ''Bob'') = 4"
  "value_of ex_corpus_env (vn ''$x'') = 5"
  "value_of ex_corpus_env (likes (cn ''Ann'') (cn ''pizza'')) = 9"
  "value_of ex_corpus_env ex_clause = 11"
  by (simp_all add: ex_corpus_env_def list_store_def ex_corpus_def ex_clause_def likes_def cn_def vn_def)

lemma ex_corpus_incoming:
  "getIncomingSet ex_corpus_env (cn ''pizza'') =
     [Link LIST_LINK [cn ''Ann'', cn ''pizza''], Link LIST_LINK [vn ''$x'', cn ''pizza'']]"
  "getIncomingSet ex_corpus_env (Link LIST_LINK [cn ''Ann'', cn ''pizza'']) = [likes (cn ''Ann'') (cn ''pizza'')]"
  "getIncomingSet ex_corpus_env (Link LIST_LINK [vn ''$x'', cn ''pizza'']) = [ex_clause]"
  "getIncomingSetSize ex_corpus_env (cn ''pizza'') = 2"
  "getIncomingSetSize ex_corpus_env (Node PREDICATE_NODE ''likes'') = 3"
  by (simp_all add: ex_corpus_env_def list_store_def ex_corpus_def ex_clause_def likes_def cn_def vn_def)

lemma ex_corpus_leaves:
  "get_all_nodes ex_corpus_env ex_clause = [Node PREDICATE_NODE ''likes'', vn ''$x'', cn ''pizza'']"
  "get_all_nodes ex_corpus_env (likes (cn ''Ann'') (cn ''pizza'')) =
     [Node PREDICATE_NODE ''likes'', cn ''Ann'', cn ''pizza'']"
  "MAX_SEARCHES ex_corpus_env = 1"
  by (simp_all add: ex_corpus_env_def list_store_def ex_clause_def likes_def cn_def vn_def)

lemma initiate_search_example:
  "\<exists>st1 final.
     list_all is_link (mandatory ex_query) \<and>
     clause_loop ex_corpus_env ex_query (mandatory ex_query) 0 (fresh_matcher [vn ''$x'']) = Inr st1 \<and>
     map handle (rank_starters (potential_starters st1)) = [cn ''pizza'', Node PREDICATE_NODE ''likes''] \<and>
     MAX_SEARCHES ex_corpus_env = 1 \<and>
     search_loop ex_corpus_env (report_pme ex_corpus_env) (mandatory ex_query) 0
        (st1\<lparr>potential_starters := rank_starters (potential_starters st1)\<rparr>) = Inr (1, final) \<and>
     initiate_search ex_corpus_env (report_pme ex_corpus_env) ex_query (fresh_matcher [vn ''$x''])
       = Inr (True, final) \<and>
     solns final = [likes (cn ''Ann'') (cn ''pizza'')] \<and> max_similarity final = 2"
proof -
  define st1 where "st1 = (fresh_matcher [vn ''$x''])
     \<lparr>potential_starters :=
        [\<lparr>uuid = 0, handle = Node PREDICATE_NODE ''likes'', term_h = Some ex_clause,
          clause_idx = 0, width = 3, depth = 1\<rparr>,
         \<lparr>uuid = 1, handle = cn ''pizza'', term_h = Some (Link LIST_LINK [vn ''$x'', cn ''pizza'']),
          clause_idx = 0, width = 2, depth = 2\<rparr>],
      pat_size := 3, var_size := 1\<rparr>"
  define ranked where "ranked = rank_starters (potential_starters st1)"
  define final where "final = foldl (\<lambda>st' s. explore_starter ex_corpus_env (report_pme ex_corpus_env)
                     (mandatory ex_query ! clause_idx s) s st')
                   (st1\<lparr>potential_starters := ranked\<rparr>) (take (MAX_SEARCHES ex_corpus_env) ranked)"
  have cl: "clause_loop ex_corpus_env ex_query (mandatory ex_query) 0 (fresh_matcher [vn ''$x'']) = Inr st1"
    using ex_corpus_values(1,2) ex_corpus_incoming(4,5)
    by (simp add: ex_query_def ex_clause_def likes_def fresh_matcher_def st1_def cn_def vn_def)
  have rk: "ranked =
        [\<lparr>uuid = 1, handle = cn ''pizza'', term_h = Some (Link LIST_LINK [vn ''$x'', cn ''pizza'']),
          clause_idx = 0, width = 2, depth = 2\<rparr>,
         \<lparr>uuid = 0, handle = Node PREDICATE_NODE ''likes'', term_h = Some ex_clause,
          clause_idx = 0, width = 3, depth = 1\<rparr>]"
    by (simp add: ranked_def st1_def rank_starters_def sort_by_uuid_def check_uniqueness_def sort_by_wd_def)
  have v: "\<forall>s \<in> set (potential_starters (fresh_matcher [vn ''$x''])).
      clause_idx s < length (mandatory ex_query) \<and> term_h s \<noteq> None"
    by (simp add: fresh_matcher_def)
  have lk: "list_all is_link (mandatory ex_query)"
    by (simp add: ex_query_def ex_clause_def likes_def)
  have fr: "\<forall>root tm h s. potential_starters (report_pme ex_corpus_env root tm h s) = potential_starters s"
    by (simp add: report_pme_frame)
  have r1: "rejected ex_corpus_env st ex_clause" if "reject_list st = [vn ''$x'']" for st
    using that by (simp add: rejected_def std_find_def handle_eq_def ex_corpus_leaves ex_corpus_values)
  have r2: "\<not> rejected ex_corpus_env st (likes (cn ''Ann'') (cn ''pizza''))" if "reject_list st = [vn ''$x'']" for st
    using that by (simp add: rejected_def std_find_def handle_eq_def ex_corpus_leaves ex_corpus_values)
  have sc: "candidate_score ex_corpus_env st ex_clause (likes (cn ''Ann'') (cn ''pizza'')) = 2"
    if "pat_size st = 3" for st
    using that
    by (simp add: candidate_score_def estimate_similarity_def ex_corpus_leaves handle_less_def
        ex_corpus_values int_cast_def size_t_sub_def)
  define a where "a = (st1\<lparr>potential_starters := ranked\<rparr>)"
  have a: "reject_list a = [vn ''$x'']" "pat_size a = 3" "prev_compared a = []"
    "max_similarity a = - (2 ^ 63)" "solns a = []"
    by (simp_all add: a_def st1_def fresh_matcher_def)
  define b where "b = snd (clause_match ex_corpus_env a ex_clause (likes (cn ''Ann'') (cn ''pizza'')))"
  have b0: "b = (check_if_accept ex_corpus_env a ex_clause (likes (cn ''Ann'') (cn ''pizza'')))
      \<lparr>prev_compared := [(11, 9)]\<rparr>"
    unfolding b_def by (subst clause_match_fresh) (simp_all add: a ex_corpus_values)
  have b: "reject_list b = [vn ''$x'']" "prev_compared b = [(11, 9)]"
    "max_similarity b = 2" "solns b = [likes (cn ''Ann'') (cn ''pizza'')]"
    using r2 [OF a(1)] sc [OF a(2)] a
    by (simp_all add: b0 check_if_accept_frame check_if_accept_step)
  define c where "c = snd (clause_match ex_corpus_env b ex_clause ex_clause)"
  have c0: "c = (check_if_accept ex_corpus_env b ex_clause ex_clause)\<lparr>prev_compared := [(11, 9), (11, 11)]\<rparr>"
    unfolding c_def by (subst clause_match_fresh) (simp_all add: b ex_corpus_values)
  have c: "max_similarity c = 2" "solns c = [likes (cn ''Ann'') (cn ''pizza'')]"
    using r1 [OF b(1)] b by (simp_all add: c0 check_if_accept_rejected)
  have "final = foldl (\<lambda>st' s. explore_starter ex_corpus_env (report_pme ex_corpus_env)
                     (mandatory ex_query ! clause_idx s) s st') a (take (MAX_SEARCHES ex_corpus_env) ranked)"
    by (simp only: final_def a_def)
  also have "\<dots> = c"
    by (simp add: rk ex_corpus_leaves explore_starter_def ex_corpus_incoming report_pme_def
        ex_query_def b_def c_def)
  finally have f: "solns final = [likes (cn ''Ann'') (cn ''pizza'')]" "max_similarity final = 2"
    using c by simp_all
  have h: "map handle (rank_starters (potential_starters st1)) = [cn ''pizza'', Node PREDICATE_NODE ''likes'']"
    using rk by (simp add: ranked_def)
  have len: "min (MAX_SEARCHES ex_corpus_env) (length (rank_starters (potential_starters st1))) = 1"
    using rk by (simp add: ranked_def ex_corpus_leaves)
  have sol: "(solns final \<noteq> []) = True"
    using f by simp
  note t = initiate_search_on_links [OF fr v lk cl ranked_def final_def]
  have t1: "search_loop ex_corpus_env (report_pme ex_corpus_env) (mandatory ex_query) 0
        (st1\<lparr>potential_starters := rank_starters (potential_starters st1)\<rparr>) = Inr (1, final)"
    using t [THEN conjunct1] unfolding ranked_def len .
  have t0: "initiate_search ex_corpus_env (report_pme ex_corpus_env) ex_query (fresh_matcher [vn ''$x''])
       = Inr (solns final \<noteq> [], final)"
    using t by (rule conjunct2 [THEN conjunct1])
  have t2: "initiate_search ex_corpus_env (report_pme ex_corpus_env) ex_query (fresh_matcher [vn ''$x''])
       = Inr (True, final)"
    using t0 unfolding sol .
  show ?thesis
    by (rule exI [of _ st1], rule exI [of _ final]) (intro conjI lk cl h ex_corpus_leaves(3) t1 t2 f)
qed

text \<open>
  C5, where the code departs from it. A clause that is a node is its own starter,
  found under no term: line 116 passes \<open>Handle::UNDEFINED\<close> and line 80 stores it. With
  at least one search allowed, the first iteration of the loop takes this starter
  and calls \<open>starter_term->toShortString()\<close> through the undefined handle (line 168,
  compiled in by line 29) before any search is made. So for a query whose one
  clause is a starter node the single ranked starter is not consumed and
  \<open>initiate_search\<close> does not return; this holds for every engine and does not
  depend on how the sorts order equivalent starters, as there is one starter only.
\<close>

theorem initiate_search_node_clause_null_term:
  assumes "mandatory pat = [Node t n]"
    and "\<not> list_ex (handle_eq env (Node t n)) (evaluatable_holders pat)"
    and "is_starter_node (Node t n)"
    and "potential_starters st = []"
    and "0 < MAX_SEARCHES env"
  shows "map_sum id potential_starters (clause_loop env pat (mandatory pat) 0 st) =
           Inr [\<lparr>uuid = value_of env (Node t n), handle = Node t n, term_h = None,
                 clause_idx = 0, width = getIncomingSetSize env (Node t n), depth = 0\<rparr>]
         \<and> rank_starters [\<lparr>uuid = value_of env (Node t n), handle = Node t n, term_h = None,
                 clause_idx = 0, width = getIncomingSetSize env (Node t n), depth = 0\<rparr>] =
             [\<lparr>uuid = value_of env (Node t n), handle = Node t n, term_h = None,
                 clause_idx = 0, width = getIncomingSetSize env (Node t n), depth = 0\<rparr>]
         \<and> initiate_search env pme pat st = Inl NullPointer"
proof -
  define s :: Starter where "s = \<lparr>uuid = value_of env (Node t n), handle = Node t n, term_h = None,
                 clause_idx = 0, width = getIncomingSetSize env (Node t n), depth = 0\<rparr>"
  define st1 where "st1 = st\<lparr>pat_size := pat_size st + 1, potential_starters := [s]\<rparr>"
  have sn: "t \<noteq> VARIABLE_NODE" "CHR ''@'' \<notin> set n"
    using assms(3) by (simp_all add: is_starter_node_def)
  have cl: "clause_loop env pat [Node t n] 0 st = Inr st1"
    using assms(2,4) sn by (simp add: st1_def s_def)
  have ps: "potential_starters st1 = [s]"
    by (simp add: st1_def)
  have rk: "rank_starters [s] = [s]"
    by (simp add: rank_starters_def)
  have tm: "term_h s = None" "clause_idx s = 0"
    by (simp_all add: s_def)
  have sl: "search_loop env pme [Node t n] 0 (st1\<lparr>potential_starters := [s]\<rparr>) = Inl NullPointer"
    by (subst search_loop.simps) (simp add: assms(5) at_index_def tm)
  have "initiate_search env pme pat st = Inl NullPointer"
    by (simp only: initiate_search_def assms(1) cl ps rk sl sum.case)
  moreover have "map_sum id potential_starters (clause_loop env pat (mandatory pat) 0 st) = Inr [s]"
    by (simp only: assms(1) cl) (simp add: ps)
  ultimately show ?thesis
    using rk unfolding s_def by (intro conjI)
qed

theorem initiate_search_node_clause_null_term_witness:
  "mandatory ex_node_query = [cn ''pizza''] \<and>
   is_starter_node (cn ''pizza'') \<and>
   potential_starters (fresh_matcher []) = [] \<and>
   MAX_SEARCHES ex_corpus_env = 1 \<and>
   map_sum id potential_starters
     (clause_loop ex_corpus_env ex_node_query (mandatory ex_node_query) 0 (fresh_matcher [])) =
     Inr [\<lparr>uuid = 1, handle = cn ''pizza'', term_h = None, clause_idx = 0, width = 2, depth = 0\<rparr>] \<and>
   initiate_search ex_corpus_env (report_pme ex_corpus_env) ex_node_query (fresh_matcher []) =
     Inl NullPointer"
proof -
  have 1: "mandatory ex_node_query = [Node CONCEPT_NODE ''pizza'']"
    by (simp add: ex_node_query_def cn_def)
  have 2: "\<not> list_ex (handle_eq ex_corpus_env (Node CONCEPT_NODE ''pizza'')) (evaluatable_holders ex_node_query)"
    by (simp add: ex_node_query_def)
  have 3: "is_starter_node (Node CONCEPT_NODE ''pizza'')"
    by (simp add: is_starter_node_def)
  have 4: "potential_starters (fresh_matcher []) = []"
    by (simp add: fresh_matcher_def)
  have 5: "0 < MAX_SEARCHES ex_corpus_env"
    by (simp add: ex_corpus_leaves)
  have 6: "value_of ex_corpus_env (Node CONCEPT_NODE ''pizza'') = 1"
    "getIncomingSetSize ex_corpus_env (Node CONCEPT_NODE ''pizza'') = 2"
    using ex_corpus_values(2) ex_corpus_incoming(4) by (simp_all add: cn_def)
  show ?thesis
    using initiate_search_node_clause_null_term
      [OF 1 2 3 4 5, of "report_pme ex_corpus_env"] 1 3 4 ex_corpus_leaves(3)
    by (simp add: 6 cn_def)
qed

section \<open>ScopeLink: construction\<close>

text \<open>
  C9. \<open>extract_variables\<close> returns the syntax exception for the empty outgoing set,
  and for an outgoing set of one atom whose type is \<open>VARIABLE_LIST\<close>,
  \<open>VARIABLE_NODE\<close>, \<open>TYPED_VARIABLE_LINK\<close> or \<open>GLOB_NODE\<close>; every constructor that
  initialises a \<open>SCOPE_LINK\<close> then returns the exception and no object.
\<close>

theorem extract_variables_structure_errors:
  "extract_variables senv sc [] = Inl SyntaxException \<and>
   ScopeLink_oset senv [] = Inl SyntaxException \<and>
   ScopeLink_type_oset senv SCOPE_LINK [] = Inl SyntaxException \<and>
   (isA senv SCOPE_LINK SCOPE_LINK \<longrightarrow> ScopeLink_copy senv (Link SCOPE_LINK []) = Inl SyntaxException) \<and>
   (getType d \<in> {VARIABLE_LIST, VARIABLE_NODE, TYPED_VARIABLE_LINK, GLOB_NODE} \<longrightarrow>
      extract_variables senv sc [d] = Inl SyntaxException \<and>
      ScopeLink_oset senv [d] = Inl SyntaxException \<and>
      ScopeLink_type_body senv SCOPE_LINK d = Inl SyntaxException \<and>
      ScopeLink_type_oset senv SCOPE_LINK [d] = Inl SyntaxException \<and>
      (isA senv SCOPE_LINK SCOPE_LINK \<longrightarrow> ScopeLink_copy senv (Link SCOPE_LINK [d]) = Inl SyntaxException))"
proof -
  have e: "extract_variables senv s [] = Inl SyntaxException" for s
    by (simp add: extract_variables_def)
  have d: "extract_variables senv s [d] = Inl SyntaxException"
    if "getType d \<in> {VARIABLE_LIST, VARIABLE_NODE, TYPED_VARIABLE_LINK, GLOB_NODE}" for s
    using that by (auto simp add: extract_variables_def Let_def)
  show ?thesis
    using e d
    by (auto simp add: ScopeLink_oset_def ScopeLink_type_oset_def ScopeLink_type_body_def
        ScopeLink_copy_def init_def Link_base_def Let_def)
qed

theorem extract_variables_structure_errors_witness:
  "getType (vn ''$x'') \<in> {VARIABLE_LIST, VARIABLE_NODE, TYPED_VARIABLE_LINK, GLOB_NODE} \<and>
   isA ex_senv SCOPE_LINK SCOPE_LINK \<and>
   extract_variables ex_senv (Link_base SCOPE_LINK [vn ''$x'']) [vn ''$x''] = Inl SyntaxException \<and>
   ScopeLink_oset ex_senv [vn ''$x''] = Inl SyntaxException \<and>
   ScopeLink_copy ex_senv (Link SCOPE_LINK [vn ''$x'']) = Inl SyntaxException \<and>
   ScopeLink_copy ex_senv (Link SCOPE_LINK []) = Inl SyntaxException \<and>
   ScopeLink_vars_body ex_senv (vn ''$x'') (ex_pred ''P'' [vn ''$x'']) =
     Inr (scope_over (vn ''$x'') (ex_pred ''P'' [vn ''$x'']))"
proof -
  have 1: "getType (vn ''$x'') \<in> {VARIABLE_LIST, VARIABLE_NODE, TYPED_VARIABLE_LINK, GLOB_NODE}"
    by (simp add: vn_def)
  have 2: "isA ex_senv SCOPE_LINK SCOPE_LINK"
    by (simp add: ex_senv_def)
  have 3: "ScopeLink_vars_body ex_senv (vn ''$x'') (ex_pred ''P'' [vn ''$x'']) =
     Inr (scope_over (vn ''$x'') (ex_pred ''P'' [vn ''$x'']))"
    by (simp add: ScopeLink_vars_body_def init_def Link_base_def extract_variables_def
        init_scoped_variables_def ex_senv_def scope_over_def vn_def)
  show ?thesis
    using extract_variables_structure_errors [of ex_senv "Link_base SCOPE_LINK [vn ''$x'']" "vn ''$x''"] 1 2 3
    by (simp add: vn_def)
qed

section \<open>ScopeLink: comparison\<close>

lemma is_equal_loop_one:
  "is_equal_loop this other 1 1 1 0 =
     (case outgoing_at (outgoing this) 1 of
        Inl e \<Rightarrow> Inl e
      | Inr h \<Rightarrow>
          (case outgoing_at (outgoing other) 1 of
             Inl e \<Rightarrow> Inl e
           | Inr other_h \<Rightarrow>
               Inr (h = substitute_nocheck (varlist other) other_h (varseq (varlist this)))))"
  by (simp add: is_equal_loop.simps atom_differs_def split: sum.splits)

lemma is_equal_scope_over:
  "is_equal (scope_over v b) (scope_over w c) =
     Inr (scope_over w c = scope_over v b \<or>
          b = substitute_nocheck \<lparr>varseq = [w], typemap = []\<rparr> c [v])"
  by (simp add: is_equal_def is_equal_loop_one Let_def)
     (simp add: scope_over_def getArity_def arity_sub_def Variables_is_equal_def outgoing_at_def
        atom_differs_def)

text \<open>
  What the code keeps of the comparison up to renaming: the scope over \<open>P($x)\<close> equals
  the one over \<open>P($y)\<close> and differs from the one over \<open>Q($x)\<close>; and a different type,
  a different number of scoped terms or different variable lists give false.
\<close>

lemma is_equal_alpha_example:
  "is_equal (scope_over (vn ''$x'') (ex_pred ''P'' [vn ''$x'']))
            (scope_over (vn ''$y'') (ex_pred ''P'' [vn ''$y''])) = Inr True"
  "is_equal (scope_over (vn ''$x'') (ex_pred ''P'' [vn ''$x'']))
            (scope_over (vn ''$x'') (ex_pred ''Q'' [vn ''$x''])) = Inr False"
  by (simp_all add: is_equal_scope_over) (simp_all add: scope_over_def ex_pred_def vn_def)

lemma is_equal_false_returns:
  assumes "other \<noteq> this"
    and "scope_type other \<noteq> scope_type this \<or>
         arity_sub (getArity this) (if vardecl this \<noteq> None then 1 else 0) \<noteq>
           arity_sub (getArity other) (if vardecl other \<noteq> None then 1 else 0) \<or>
         \<not> Variables_is_equal (varlist this) (varlist other)"
  shows "is_equal this other = Inr False"
  using assms by (auto simp add: is_equal_def Let_def)

text \<open>
  C8, where the code departs from it. The scope that binds \<open>$y\<close> over \<open>P($y, $x)\<close> has
  \<open>$x\<close> free; putting \<open>$x\<close> for \<open>$y\<close> captures it, and the scope that binds \<open>$x\<close> over
  \<open>P($x, $x)\<close> is found equal to it, but not the other way round.
\<close>

theorem is_equal_captures_free_variable:
  "ScopeLink_vars_body ex_senv (vn ''$x'') (ex_pred ''P'' [vn ''$x'', vn ''$x'']) =
     Inr (scope_over (vn ''$x'') (ex_pred ''P'' [vn ''$x'', vn ''$x''])) \<and>
   ScopeLink_vars_body ex_senv (vn ''$y'') (ex_pred ''P'' [vn ''$y'', vn ''$x'']) =
     Inr (scope_over (vn ''$y'') (ex_pred ''P'' [vn ''$y'', vn ''$x''])) \<and>
   is_equal (scope_over (vn ''$x'') (ex_pred ''P'' [vn ''$x'', vn ''$x'']))
            (scope_over (vn ''$y'') (ex_pred ''P'' [vn ''$y'', vn ''$x''])) = Inr True \<and>
   is_equal (scope_over (vn ''$y'') (ex_pred ''P'' [vn ''$y'', vn ''$x'']))
            (scope_over (vn ''$x'') (ex_pred ''P'' [vn ''$x'', vn ''$x''])) = Inr False \<and>
   vn ''$x'' \<in> set (leaf_nodes (ex_pred ''P'' [vn ''$y'', vn ''$x''])) \<and>
   vn ''$x'' \<notin> set (varseq (varlist (scope_over (vn ''$y'') (ex_pred ''P'' [vn ''$y'', vn ''$x'']))))"
proof -
  have c: "ScopeLink_vars_body ex_senv (vn v) b = Inr (scope_over (vn v) b)" for v b
    by (simp add: ScopeLink_vars_body_def init_def Link_base_def extract_variables_def
        init_scoped_variables_def ex_senv_def scope_over_def vn_def)
  have "is_equal (scope_over (vn ''$x'') (ex_pred ''P'' [vn ''$x'', vn ''$x'']))
            (scope_over (vn ''$y'') (ex_pred ''P'' [vn ''$y'', vn ''$x''])) = Inr True"
    by (simp add: is_equal_scope_over) (simp add: scope_over_def ex_pred_def vn_def)
  moreover have "is_equal (scope_over (vn ''$y'') (ex_pred ''P'' [vn ''$y'', vn ''$x'']))
            (scope_over (vn ''$x'') (ex_pred ''P'' [vn ''$x'', vn ''$x''])) = Inr False"
    by (simp add: is_equal_scope_over) (simp add: scope_over_def ex_pred_def vn_def)
  moreover have "vn ''$x'' \<in> set (leaf_nodes (ex_pred ''P'' [vn ''$y'', vn ''$x'']))"
    "vn ''$x'' \<notin> set (varseq (varlist (scope_over (vn ''$y'') (ex_pred ''P'' [vn ''$y'', vn ''$x'']))))"
    by (simp_all add: ex_pred_def scope_over_def vn_def)
  ultimately show ?thesis using c by simp
qed

end
